theory Spec2Isabelle
  imports
    Complex_Main
    "HOL-Library.Char_ord"
    "HOL-Library.List_Lexorder"
    "HOL-Library.AList"
    "HOL-Library.Multiset"
    "HOL-Library.Log_Nat"
begin

section \<open>Python floats\<close>

text \<open>
  The amounts of the ledger are Python floats, that is IEEE 754 doubles. A float is one
  of the three special values \<^verbatim>\<open>inf\<close>, \<^verbatim>\<open>-inf\<close> and \<^verbatim>\<open>nan\<close>, or a finite value, held as
  the rational number it denotes. Every result of an addition is rounded to the nearest
  double, ties to even, and goes to \<^verbatim>\<open>inf\<close> beyond the largest double. The comparisons
  and the arithmetic on the special values are those of IEEE 754: every comparison with
  \<^verbatim>\<open>nan\<close> is false, \<^verbatim>\<open>inf - inf\<close> is \<^verbatim>\<open>nan\<close>, and \<^verbatim>\<open>nan\<close> is absorbing. The sign of a zero
  is not held; no comparison and no format of the program observes it.
\<close>

datatype pyfloat = Fin rat | PInf | NInf | NaN

definition round_half_even :: "rat \<Rightarrow> int" where
  "round_half_even y =
     (let f = \<lfloor>y\<rfloor>; d = y - of_int f
      in if d < 1 / 2 then f else if 1 / 2 < d then f + 1
         else if even f then f else f + 1)"

definition pow2 :: "int \<Rightarrow> rat" where
  "pow2 e = (if 0 \<le> e then 2 ^ nat e else 1 / 2 ^ nat (- e))"

text \<open>The binary exponent of a rational other than 0: the \<open>k\<close> with \<open>2\<^sup>k \<le> \<bar>r\<bar> < 2\<^sup>k\<^sup>+\<^sup>1\<close>.\<close>

definition ilog2 :: "rat \<Rightarrow> int" where
  "ilog2 r =
     (if 1 \<le> \<bar>r\<bar> then bitlen \<lfloor>\<bar>r\<bar>\<rfloor> - 1 else - bitlen (\<lceil>1 / \<bar>r\<bar>\<rceil> - 1))"

text \<open>
  Rounding to a double: 53 significant bits, the least exponent -1074 (so the small
  values round on the subnormal grid, and to 0 below it), overflow from \<open>2\<^sup>1\<^sup>0\<^sup>2\<^sup>4\<close> on.
\<close>

definition round_double :: "rat \<Rightarrow> pyfloat" where
  "round_double r =
     (if r = 0 then Fin 0
      else
        let e = max (ilog2 r - 52) (- 1074);
            m = round_half_even (r / pow2 e)
        in if pow2 1024 \<le> \<bar>of_int m * pow2 e\<bar> then (if r < 0 then NInf else PInf)
           else Fin (of_int m * pow2 e))"

fun fneg :: "pyfloat \<Rightarrow> pyfloat" where
  "fneg (Fin x) = Fin (- x)"
| "fneg PInf = NInf"
| "fneg NInf = PInf"
| "fneg NaN = NaN"

fun fadd :: "pyfloat \<Rightarrow> pyfloat \<Rightarrow> pyfloat" where
  "fadd NaN _ = NaN"
| "fadd _ NaN = NaN"
| "fadd PInf NInf = NaN"
| "fadd NInf PInf = NaN"
| "fadd PInf _ = PInf"
| "fadd _ PInf = PInf"
| "fadd NInf _ = NInf"
| "fadd _ NInf = NInf"
| "fadd (Fin x) (Fin y) = round_double (x + y)"

definition fsub :: "pyfloat \<Rightarrow> pyfloat \<Rightarrow> pyfloat" where
  "fsub a b = fadd a (fneg b)"

fun fabs :: "pyfloat \<Rightarrow> pyfloat" where
  "fabs (Fin x) = Fin \<bar>x\<bar>"
| "fabs PInf = PInf"
| "fabs NInf = PInf"
| "fabs NaN = NaN"

text \<open>Python's \<^verbatim>\<open>a < b\<close>, \<^verbatim>\<open>a <= b\<close>, \<^verbatim>\<open>a > b\<close> and \<^verbatim>\<open>a >= b\<close> on floats.\<close>

fun flt :: "pyfloat \<Rightarrow> pyfloat \<Rightarrow> bool" where
  "flt NaN _ = False"
| "flt _ NaN = False"
| "flt (Fin x) (Fin y) = (x < y)"
| "flt PInf _ = False"
| "flt _ PInf = True"
| "flt _ NInf = False"
| "flt NInf _ = True"

fun fle :: "pyfloat \<Rightarrow> pyfloat \<Rightarrow> bool" where
  "fle NaN _ = False"
| "fle _ NaN = False"
| "fle (Fin x) (Fin y) = (x \<le> y)"
| "fle _ PInf = True"
| "fle NInf _ = True"
| "fle PInf _ = False"
| "fle _ NInf = False"

definition fgt :: "pyfloat \<Rightarrow> pyfloat \<Rightarrow> bool" where
  "fgt a b = flt b a"

definition fge :: "pyfloat \<Rightarrow> pyfloat \<Rightarrow> bool" where
  "fge a b = fle b a"

text \<open>The literal \<^verbatim>\<open>0.01\<close> of the source: the double nearest to one hundredth.\<close>

definition eps :: pyfloat where
  "eps = round_double (1 / 100)"

text \<open>
  \<^verbatim>\<open>sum(xs)\<close>: the running total starts at 0 and adds the items from left to right,
  rounding each time. (From CPython 3.12 on the loop carries a compensation term as well;
  that changes no sum whose partial sums are all exact.)
\<close>

definition py_sum :: "pyfloat list \<Rightarrow> pyfloat" where
  "py_sum xs = foldl fadd (Fin 0) xs"

subsection \<open>The \<^verbatim>\<open>float(str)\<close> constructor\<close>

text \<open>
  \<^verbatim>\<open>float(s)\<close> is a builtin; the poster below takes it as a parameter \<open>float_of\<close>, with
  \<open>None\<close> for \<^verbatim>\<open>ValueError\<close>. The function \<open>py_float\<close> follows the grammar of the
  Python language reference for ASCII input, and is what the concrete evaluations use:
  surrounding whitespace is stripped, then an optional sign, then \<^verbatim>\<open>inf\<close>,
  \<^verbatim>\<open>infinity\<close> or \<^verbatim>\<open>nan\<close> in any letter case, or a decimal number with an optional
  exponent; digits may be grouped by single underscores. The decimal number is rounded
  to the nearest double.
\<close>

definition is_space :: "char \<Rightarrow> bool" where
  "is_space c = (c = CHR '' '' \<or> (9 \<le> (of_char c :: nat) \<and> (of_char c :: nat) \<le> 13))"

definition strip :: "string \<Rightarrow> string" where
  "strip s = rev (dropWhile is_space (rev (dropWhile is_space s)))"

definition is_digit :: "char \<Rightarrow> bool" where
  "is_digit c = (48 \<le> (of_char c :: nat) \<and> (of_char c :: nat) \<le> 57)"

definition lower :: "char \<Rightarrow> char" where
  "lower c = (if 65 \<le> (of_char c :: nat) \<and> (of_char c :: nat) \<le> 90
              then char_of ((of_char c :: nat) + 32) else c)"

fun digitpart :: "string \<Rightarrow> bool" where
  "digitpart [] = False"
| "digitpart [c] = is_digit c"
| "digitpart (c # d # cs) =
     (is_digit c \<and> (if d = CHR ''_'' then digitpart cs else digitpart (d # cs)))"

definition digits_val :: "string \<Rightarrow> nat" where
  "digits_val s = foldl (\<lambda>n c. 10 * n + ((of_char c :: nat) - 48)) 0 (filter is_digit s)"

definition ndigits :: "string \<Rightarrow> nat" where
  "ndigits s = length (filter is_digit s)"

definition number :: "string \<Rightarrow> rat option" where
  "number s =
     (let ip = takeWhile (\<lambda>c. c \<noteq> CHR ''.'') s;
          r = dropWhile (\<lambda>c. c \<noteq> CHR ''.'') s
      in case r of
           [] \<Rightarrow> if digitpart ip then Some (of_nat (digits_val ip)) else None
         | _ # fp \<Rightarrow>
             if fp = [] then (if digitpart ip then Some (of_nat (digits_val ip)) else None)
             else if (ip = [] \<or> digitpart ip) \<and> digitpart fp
             then Some (of_nat (digits_val ip) + of_nat (digits_val fp) / 10 ^ ndigits fp)
             else None)"

definition exponent :: "string \<Rightarrow> int option" where
  "exponent s =
     (case s of
        [] \<Rightarrow> None
      | c # cs \<Rightarrow>
          if c = CHR ''-'' then (if digitpart cs then Some (- int (digits_val cs)) else None)
          else if c = CHR ''+'' then (if digitpart cs then Some (int (digits_val cs)) else None)
          else if digitpart s then Some (int (digits_val s)) else None)"

definition floatnumber :: "string \<Rightarrow> rat option" where
  "floatnumber s =
     (let m = takeWhile (\<lambda>c. lower c \<noteq> CHR ''e'') s;
          r = dropWhile (\<lambda>c. lower c \<noteq> CHR ''e'') s
      in case r of
           [] \<Rightarrow> number m
         | _ # ex \<Rightarrow>
             (case (number m, exponent ex) of
                (Some v, Some e) \<Rightarrow>
                  Some (if 0 \<le> e then v * 10 ^ nat e else v / 10 ^ nat (- e))
              | _ \<Rightarrow> None))"

definition absfloatvalue :: "string \<Rightarrow> pyfloat option" where
  "absfloatvalue s =
     (if map lower s = ''inf'' \<or> map lower s = ''infinity'' then Some PInf
      else if map lower s = ''nan'' then Some NaN
      else map_option round_double (floatnumber s))"

definition py_float :: "string \<Rightarrow> pyfloat option" where
  "py_float s =
     (case strip s of
        [] \<Rightarrow> None
      | c # cs \<Rightarrow>
          if c = CHR ''-'' then map_option fneg (absfloatvalue cs)
          else if c = CHR ''+'' then absfloatvalue cs
          else absfloatvalue (c # cs))"

section \<open>The journal\<close>

text \<open>
  \<^verbatim>\<open>JournalEntry\<close> is the one table of the database. The table is a list of rows in
  insertion order (the order of the auto-increment \<^verbatim>\<open>id\<close>); \<^verbatim>\<open>session.add\<close> followed by
  \<^verbatim>\<open>commit\<close> appends to it.
\<close>

record JournalEntry =
  date :: string
  description :: string
  account :: string
  category :: string
  debit :: pyfloat
  credit :: pyfloat

type_synonym table = "JournalEntry list"

record TrialBalanceRow =
  account :: string
  debit_balance :: pyfloat
  credit_balance :: pyfloat
  formatted_debit :: string
  formatted_credit :: string

section \<open>\<^verbatim>\<open>AccountingState\<close>: posting a transaction\<close>

record AccountingState =
  description :: string
  amount :: string
  debit_account :: string
  credit_account :: string
  entries :: "JournalEntry list"

text \<open>
  What an event handler returns to the front end, and how a call of a handler ends: it
  returns (an event, or nothing), or an exception leaves it.
\<close>

datatype event = window_alert string

datatype error = IntegrityError

datatype outcome = Returned "event option" | Raised error

text \<open>\<^verbatim>\<open>select(JournalEntry).order_by(JournalEntry.id.desc())\<close>: newest row first.\<close>

definition load_entries :: "table \<Rightarrow> AccountingState \<Rightarrow> AccountingState" where
  "load_entries db st = st\<lparr>entries := rev db\<rparr>"

text \<open>
  \<^verbatim>\<open>session.add\<close> of the new rows and \<^verbatim>\<open>session.commit()\<close>. The store is SQLite, the
  default of the framework. The columns \<^verbatim>\<open>debit\<close> and \<^verbatim>\<open>credit\<close> are declared
  \<^verbatim>\<open>float\<close>, so they are \<^verbatim>\<open>NOT NULL\<close>, and the driver binds \<^verbatim>\<open>nan\<close> as \<^verbatim>\<open>NULL\<close>: the
  commit of a row with a \<^verbatim>\<open>nan\<close> raises \<^verbatim>\<open>IntegrityError\<close> and stores nothing. Every other
  float, \<^verbatim>\<open>inf\<close> included, is stored.
\<close>

definition commit :: "table \<Rightarrow> JournalEntry list \<Rightarrow> error + table" where
  "commit db new_rows =
     (if list_ex (\<lambda>e. debit e = NaN \<or> credit e = NaN) new_rows then Inl IntegrityError
      else Inr (db @ new_rows))"

text \<open>
  \<^verbatim>\<open>add_transaction\<close>. The parameter \<open>float_of\<close> is \<^verbatim>\<open>float\<close>, and \<open>now\<close> is the string
  that \<^verbatim>\<open>datetime.now().strftime("%Y-%m-%d %H:%M")\<close> returns during the call. The result
  is how the call ends, the table and the state after the call. The handler catches
  \<^verbatim>\<open>ValueError\<close> only, so the error of the commit leaves it, before the form is reset.
\<close>

definition add_transaction ::
  "(string \<Rightarrow> pyfloat option) \<Rightarrow> string \<Rightarrow> table \<Rightarrow> AccountingState
    \<Rightarrow> outcome \<times> table \<times> AccountingState" where
  "add_transaction float_of now db st =
     (case float_of (amount st) of
        None \<Rightarrow> (Returned (Some (window_alert ''Invalid Amount'')), db, st)
      | Some amt \<Rightarrow>
          if fle amt (Fin 0)
          then (Returned (Some (window_alert ''Amount must be positive.'')), db, st)
          else
            let current_date = now;
                debit_entry = \<lparr>date = current_date,
                               description = AccountingState.description st,
                               account = debit_account st,
                               category = ''Debit'',
                               debit = amt,
                               credit = Fin 0\<rparr>;
                credit_entry = \<lparr>date = current_date,
                                description = AccountingState.description st,
                                account = credit_account st,
                                category = ''Credit'',
                                debit = Fin 0,
                                credit = amt\<rparr>
            in case commit db [debit_entry, credit_entry] of
                 Inl err \<Rightarrow> (Raised err, db, st)
               | Inr db' \<Rightarrow>
                   (Returned None, db',
                    load_entries db' (st\<lparr>description := [], amount := ''0''\<rparr>)))"

section \<open>\<^verbatim>\<open>LedgerState\<close>: the ledger of one account\<close>

record LedgerState =
  selected_account :: string
  ledger_entries :: "JournalEntry list"
  available_accounts :: "string list"

text \<open>
  \<^verbatim>\<open>ORDER BY date DESC\<close>. The query names \<^verbatim>\<open>date\<close> as its only key; the engine's sort
  is a stable one over the rows in table order, so a row goes behind every row whose
  date is greater than or equal to its own. Dates are compared as strings.
\<close>

fun insert_desc :: "JournalEntry \<Rightarrow> JournalEntry list \<Rightarrow> JournalEntry list" where
  "insert_desc e [] = [e]"
| "insert_desc e (x # xs) =
     (if date x < date e then e # x # xs else x # insert_desc e xs)"

definition order_by_date_desc :: "JournalEntry list \<Rightarrow> JournalEntry list" where
  "order_by_date_desc es = foldl (\<lambda>sorted e. insert_desc e sorted) [] es"

definition get_ledger_entries :: "table \<Rightarrow> LedgerState \<Rightarrow> LedgerState" where
  "get_ledger_entries db st =
     st\<lparr>ledger_entries :=
          order_by_date_desc
            (filter (\<lambda>e. JournalEntry.account e = selected_account st) db)\<rparr>"

text \<open>\<^verbatim>\<open>SELECT DISTINCT account\<close>: every account once, in the order of first use.\<close>

fun distinct_accounts :: "string list \<Rightarrow> string list \<Rightarrow> string list" where
  "distinct_accounts seen [] = seen"
| "distinct_accounts seen (a # as) =
     distinct_accounts (if a \<in> set seen then seen else seen @ [a]) as"

definition get_accounts :: "table \<Rightarrow> LedgerState \<Rightarrow> LedgerState" where
  "get_accounts db st =
     (let st1 = st\<lparr>available_accounts :=
                     distinct_accounts [] (map JournalEntry.account db)\<rparr>;
          st2 = (if available_accounts st1 \<noteq> []
                    \<and> selected_account st1 \<notin> set (available_accounts st1)
                 then (case available_accounts st1 of
                         a # _ \<Rightarrow> st1\<lparr>selected_account := a\<rparr>
                       | [] \<Rightarrow> st1)
                 else st1)
      in get_ledger_entries db st2)"

definition set_account :: "string \<Rightarrow> table \<Rightarrow> LedgerState \<Rightarrow> LedgerState" where
  "set_account a db st = get_ledger_entries db (st\<lparr>selected_account := a\<rparr>)"

definition account_balance :: "LedgerState \<Rightarrow> pyfloat" where
  "account_balance st =
     (let debits = py_sum (map debit (ledger_entries st));
          credits = py_sum (map credit (ledger_entries st))
      in fsub debits credits)"

text \<open>The integrity figure of the journal page, over the loaded entries.\<close>

definition total_balance :: "AccountingState \<Rightarrow> pyfloat" where
  "total_balance st =
     (let total_dr = py_sum (map debit (entries st));
          total_cr = py_sum (map credit (entries st))
      in fsub total_dr total_cr)"

section \<open>\<^verbatim>\<open>TrialBalanceState\<close>: the trial balance\<close>

record TrialBalanceState =
  rows :: "TrialBalanceRow list"
  total_dr :: pyfloat
  total_cr :: pyfloat

text \<open>
  The first loop of \<^verbatim>\<open>calculate_trial_balance\<close>. The dictionary \<^verbatim>\<open>account_map\<close> keeps
  its keys in insertion order, so it is an association list: a new key goes to the end,
  an assignment to a present key keeps its place. After the first statement of the loop
  body the key is present, so the read of the second statement finds it.
\<close>

fun aggregate ::
  "JournalEntry list \<Rightarrow> (string \<times> pyfloat) list \<Rightarrow> (string \<times> pyfloat) list" where
  "aggregate [] account_map = account_map"
| "aggregate (entry # es) account_map =
     (let k = JournalEntry.account entry;
          m = (if map_of account_map k = None
               then AList.update k (Fin 0) account_map else account_map)
      in case map_of m k of
           Some v \<Rightarrow> aggregate es (AList.update k (fadd v (fsub (debit entry) (credit entry))) m)
         | None \<Rightarrow> aggregate es m)"

text \<open>
  The second loop, over \<^verbatim>\<open>account_map.items()\<close>, with the three accumulators
  \<^verbatim>\<open>new_rows\<close>, \<^verbatim>\<open>t_dr\<close> and \<^verbatim>\<open>t_cr\<close>. The parameter \<open>fmt\<close> is the format \<^verbatim>\<open>{:,.2f}\<close>.
\<close>

fun rows_loop ::
  "(pyfloat \<Rightarrow> string) \<Rightarrow> (string \<times> pyfloat) list
    \<Rightarrow> TrialBalanceRow list \<times> pyfloat \<times> pyfloat
    \<Rightarrow> TrialBalanceRow list \<times> pyfloat \<times> pyfloat" where
  "rows_loop fmt [] acc = acc"
| "rows_loop fmt ((acc, net_bal) # items) (new_rows, t_dr, t_cr) =
     (if flt (fabs net_bal) eps then rows_loop fmt items (new_rows, t_dr, t_cr)
      else
        let dr = (if fgt net_bal (Fin 0) then net_bal else Fin 0);
            cr = (if flt net_bal (Fin 0) then fabs net_bal else Fin 0)
        in rows_loop fmt items
             (new_rows @ [\<lparr>account = acc, debit_balance = dr, credit_balance = cr,
                           formatted_debit = fmt dr, formatted_credit = fmt cr\<rparr>],
              fadd t_dr dr, fadd t_cr cr))"

definition calculate_trial_balance ::
  "(pyfloat \<Rightarrow> string) \<Rightarrow> table \<Rightarrow> TrialBalanceState \<Rightarrow> TrialBalanceState" where
  "calculate_trial_balance fmt db st =
     (let all_entries = db;
          account_map = aggregate all_entries []
      in case rows_loop fmt account_map ([], Fin 0, Fin 0) of
           (new_rows, t_dr, t_cr) \<Rightarrow>
             st\<lparr>rows := new_rows, total_dr := t_dr, total_cr := t_cr\<rparr>)"

definition is_balanced :: "TrialBalanceState \<Rightarrow> bool" where
  "is_balanced st = flt (fabs (fsub (total_dr st) (total_cr st))) eps"

section \<open>Concrete inputs\<close>

text \<open>The inputs of the evaluations below: a minute, and the form as a user fills it.\<close>

definition minute0 :: string where
  "minute0 = ''2024-01-01 10:00''"

definition form :: "string \<Rightarrow> string \<Rightarrow> string \<Rightarrow> string \<Rightarrow> AccountingState" where
  "form d a dr cr =
     \<lparr>description = d, amount = a, debit_account = dr, credit_account = cr, entries = []\<rparr>"

section \<open>Sequences of posts\<close>

text \<open>
  A user posts by filling the form and pressing the button, again and again. A sequence
  of posts is a list of pairs: the minute of the click and the form at the click. Each
  post runs \<open>add_transaction\<close> on the table the earlier posts left.
\<close>

fun post_all ::
  "(string \<Rightarrow> pyfloat option) \<Rightarrow> (string \<times> AccountingState) list \<Rightarrow> table \<Rightarrow> table" where
  "post_all float_of [] db = db"
| "post_all float_of ((now, st) # ps) db =
     post_all float_of ps (fst (snd (add_transaction float_of now db st)))"

definition ledger0 :: LedgerState where
  "ledger0 = \<lparr>selected_account = ''Cash'', ledger_entries = [], available_accounts = []\<rparr>"

definition tb0 :: TrialBalanceState where
  "tb0 = \<lparr>rows = [], total_dr = Fin 0, total_cr = Fin 0\<rparr>"

section \<open>The ledger query\<close>

text \<open>
  The ordering that the words of the specification describe: date descending, and among
  equal dates the row inserted last comes first. That is the stable ascending sort, read
  backwards.
\<close>

definition entriesForAccount_spec :: "string \<Rightarrow> table \<Rightarrow> JournalEntry list" where
  "entriesForAccount_spec a db =
     rev (sort_key date (filter (\<lambda>e. JournalEntry.account e = a) db))"

section \<open>The rows a post stores\<close>

text \<open>
  The two field constraints of the data model, for one row: the debit is a non-negative
  amount that is 0 unless the category is Debit, the credit is a non-negative amount that
  is 0 unless the category is Credit.
\<close>

definition entry_ok :: "JournalEntry \<Rightarrow> bool" where
  "entry_ok e =
     (fge (debit e) (Fin 0) \<and> (debit e = Fin 0 \<or> category e = ''Debit'') \<and>
      fge (credit e) (Fin 0) \<and> (credit e = Fin 0 \<or> category e = ''Credit''))"

section \<open>The format \<^verbatim>\<open>{:,.2f}\<close>\<close>

text \<open>
  The trial balance takes the float format as its parameter \<open>fmt\<close>. For the concrete
  evaluations, \<open>format_2f\<close> is that format: the value of the double to two decimals,
  rounded half to even, the integer part grouped in threes by commas.
\<close>

definition digit_char :: "nat \<Rightarrow> char" where
  "digit_char n = ''0123456789'' ! (n mod 10)"

function decimal :: "nat \<Rightarrow> string" where
  "decimal n = (if n < 10 then [digit_char n] else decimal (n div 10) @ [digit_char n])"
  by pat_completeness auto

termination
  by (relation "measure id") auto

declare decimal.simps [simp del]

fun group3 :: "string \<Rightarrow> string" where
  "group3 (a # b # c # d # ds) = a # b # c # CHR '','' # group3 (d # ds)"
| "group3 ds = ds"

definition format_2f :: "pyfloat \<Rightarrow> string" where
  "format_2f x =
     (case x of
        NaN \<Rightarrow> ''nan''
      | PInf \<Rightarrow> ''inf''
      | NInf \<Rightarrow> ''-inf''
      | Fin r \<Rightarrow>
          (let h = nat \<bar>round_half_even (r * 100)\<bar>
           in (if r < 0 then ''-'' else '''')
              @ rev (group3 (rev (decimal (h div 100))))
              @ ''.'' @ [digit_char (h div 10), digit_char h]))"

section \<open>The net balance of an account\<close>

text \<open>
  The net of an account, in the words of the specification: the sum of debit minus credit
  over the rows of that account, in table order.
\<close>

definition net_of :: "string \<Rightarrow> table \<Rightarrow> pyfloat" where
  "net_of a db =
     py_sum (map (\<lambda>e. fsub (debit e) (credit e)) (filter (\<lambda>e. JournalEntry.account e = a) db))"

definition nets :: "table \<Rightarrow> (string \<times> pyfloat) list" where
  "nets db = map (\<lambda>a. (a, net_of a db)) (distinct_accounts [] (map JournalEntry.account db))"

text \<open>
  The rows of the trial balance, in the words of the specification: one row for each
  account whose net has \<^verbatim>\<open>abs(net) >= 0.01\<close>, with the net in the debit column when it
  is positive and its absolute value in the credit column when it is negative.
\<close>

definition row_spec :: "(pyfloat \<Rightarrow> string) \<Rightarrow> string \<times> pyfloat \<Rightarrow> TrialBalanceRow" where
  "row_spec fmt p =
     (if fgt (snd p) (Fin 0)
      then \<lparr>account = fst p, debit_balance = snd p, credit_balance = Fin 0,
            formatted_debit = fmt (snd p), formatted_credit = fmt (Fin 0)\<rparr>
      else \<lparr>account = fst p, debit_balance = Fin 0, credit_balance = fabs (snd p),
            formatted_debit = fmt (Fin 0), formatted_credit = fmt (fabs (snd p))\<rparr>)"

definition trial_rows_spec :: "(pyfloat \<Rightarrow> string) \<Rightarrow> table \<Rightarrow> TrialBalanceRow list" where
  "trial_rows_spec fmt db =
     map (row_spec fmt) (filter (\<lambda>p. fge (fabs (snd p)) eps) (nets db))"

text \<open>The row and the test of the second loop, as the code has them.\<close>

definition emitted :: "string \<times> pyfloat \<Rightarrow> bool" where
  "emitted p = (\<not> flt (fabs (snd p)) eps)"

definition dr_of :: "pyfloat \<Rightarrow> pyfloat" where
  "dr_of net_bal = (if fgt net_bal (Fin 0) then net_bal else Fin 0)"

definition cr_of :: "pyfloat \<Rightarrow> pyfloat" where
  "cr_of net_bal = (if flt net_bal (Fin 0) then fabs net_bal else Fin 0)"

definition row_of :: "(pyfloat \<Rightarrow> string) \<Rightarrow> string \<times> pyfloat \<Rightarrow> TrialBalanceRow" where
  "row_of fmt p =
     \<lparr>account = fst p, debit_balance = dr_of (snd p), credit_balance = cr_of (snd p),
      formatted_debit = fmt (dr_of (snd p)), formatted_credit = fmt (cr_of (snd p))\<rparr>"

definition lookup0 :: "(string \<times> pyfloat) list \<Rightarrow> string \<Rightarrow> pyfloat" where
  "lookup0 m k = (case map_of m k of None \<Rightarrow> Fin 0 | Some v \<Rightarrow> v)"

section \<open>The double-entry identity\<close>

text \<open>A sequence of valid posts: every amount parses to a value greater than 0.\<close>

definition valid_posts ::
  "(string \<Rightarrow> pyfloat option) \<Rightarrow> (string \<times> AccountingState) list \<Rightarrow> bool" where
  "valid_posts float_of ps =
     list_all (\<lambda>p. case float_of (amount (snd p)) of
                      Some x \<Rightarrow> fgt x (Fin 0)
                    | None \<Rightarrow> False) ps"

text \<open>
  Whole-number floats and their values. A sum of whole numbers is exact as long as it
  stays below \<open>2\<^sup>5\<^sup>3\<close>.
\<close>

fun is_whole :: "pyfloat \<Rightarrow> bool" where
  "is_whole (Fin r) = (of_int \<lfloor>r\<rfloor> = r)"
| "is_whole _ = False"

fun iv :: "pyfloat \<Rightarrow> int" where
  "iv (Fin r) = \<lfloor>r\<rfloor>"
| "iv _ = 0"

definition whole_rows :: "table \<Rightarrow> bool" where
  "whole_rows db = list_all (\<lambda>e. is_whole (debit e) \<and> is_whole (credit e)) db"

definition irow :: "JournalEntry \<Rightarrow> int" where
  "irow e = iv (debit e) - iv (credit e)"

definition weight :: "JournalEntry \<Rightarrow> int" where
  "weight e = \<bar>iv (debit e)\<bar> + \<bar>iv (credit e)\<bar>"

text \<open>The net of an account as a whole number.\<close>

definition inet :: "string \<Rightarrow> table \<Rightarrow> int" where
  "inet a db = sum_list (map irow (filter (\<lambda>e. JournalEntry.account e = a) db))"

text \<open>
  A sequence of valid posts of whole-number amounts: every amount parses to a whole
  number greater than 0. The total of such a sequence is the sum of its amounts.
\<close>

definition whole_posts ::
  "(string \<Rightarrow> pyfloat option) \<Rightarrow> (string \<times> AccountingState) list \<Rightarrow> bool" where
  "whole_posts float_of ps =
     list_all (\<lambda>p. case float_of (amount (snd p)) of
                      Some x \<Rightarrow> is_whole x \<and> 0 < iv x
                    | None \<Rightarrow> False) ps"

definition posts_total ::
  "(string \<Rightarrow> pyfloat option) \<Rightarrow> (string \<times> AccountingState) list \<Rightarrow> int" where
  "posts_total float_of ps =
     sum_list (map (\<lambda>p. case float_of (amount (snd p)) of
                           Some x \<Rightarrow> iv x
                         | None \<Rightarrow> 0) ps)"

text \<open>
  Two posts of 50 that debit Cash and credit Bank Loan, then one of 30 that credits Cash;
  two posts of 0.006 that both debit Cash; and posts of 1e16 to the debit of Cash, of 1e16
  to its credit and of 1 to its debit.
\<close>

definition posts_loan :: "(string \<times> AccountingState) list" where
  "posts_loan =
     [(minute0, form ''loan'' ''50'' ''Cash'' ''Bank Loan''),
      (minute0, form ''loan'' ''50'' ''Cash'' ''Bank Loan''),
      (minute0, form ''rent'' ''30'' ''Rent Expense'' ''Cash'')]"

definition posts_small :: "(string \<times> AccountingState) list" where
  "posts_small =
     [(minute0, form ''a'' ''0.006'' ''Cash'' ''Sales Revenue''),
      (minute0, form ''b'' ''0.006'' ''Cash'' ''Bank Loan'')]"

definition posts_big :: "(string \<times> AccountingState) list" where
  "posts_big =
     [(minute0, form ''a'' ''1e16'' ''Cash'' ''Bank Loan''),
      (minute0, form ''b'' ''1e16'' ''Bank Loan'' ''Cash''),
      (minute0, form ''c'' ''1'' ''Cash'' ''Bank Loan'')]"

section \<open>The balance of a ledger\<close>

text \<open>
  What the posts contribute to an account, in the words of the specification: every post
  that goes through gives its amount when the account is its debit account, and its amount
  negated when the account is its credit account. A post goes through when its amount
  parses, the test \<^verbatim>\<open>amt <= 0\<close> is false and the commit stores the rows. The sum is
  taken as the program takes its sums, in the order of the posts.
\<close>

definition signed_amount :: "(string \<Rightarrow> pyfloat option) \<Rightarrow> string \<Rightarrow> AccountingState \<Rightarrow> pyfloat list" where
  "signed_amount float_of a st =
     (case float_of (amount st) of
        None \<Rightarrow> []
      | Some amt \<Rightarrow>
          if fle amt (Fin 0) \<or> amt = NaN then []
          else (if debit_account st = a then [amt] else [])
             @ (if credit_account st = a then [fneg amt] else []))"

definition signed_amounts ::
  "(string \<Rightarrow> pyfloat option) \<Rightarrow> string \<Rightarrow> (string \<times> AccountingState) list \<Rightarrow> pyfloat list" where
  "signed_amounts float_of a ps = concat (map (\<lambda>p. signed_amount float_of a (snd p)) ps)"

section \<open>Evaluating the concrete inputs\<close>

lemma form_sel:
  "AccountingState.description (form d a dr cr) = d"
  "amount (form d a dr cr) = a"
  "debit_account (form d a dr cr) = dr"
  "credit_account (form d a dr cr) = cr"
  by (simp_all add: form_def)

lemma floor_numeral_div: "\<lfloor>numeral a / numeral b :: rat\<rfloor> = numeral a div numeral b"
  using floor_divide_of_int_eq [of "numeral a" "numeral b", where ?'a = rat] by simp

lemma ceiling_numeral_div:
  "\<lceil>numeral a / numeral b :: rat\<rceil> = - ((- numeral a) div numeral b)"
  using ceiling_divide_eq_div [of "numeral a" "numeral b", where ?'a = rat] by simp

lemmas round_double_simps =
  round_double_def ilog2_def pow2_def round_half_even_def Let_def
  floor_numeral_div ceiling_numeral_div compute_bitlen

lemmas py_float_simps =
  py_float_def strip_def is_space_def absfloatvalue_def lower_def floatnumber_def
  number_def exponent_def is_digit_def digits_val_def ndigits_def round_double_simps

lemmas format_2f_simps =
  format_2f_def round_half_even_def decimal.simps digit_char_def Let_def floor_numeral_div

lemma eps_value: "eps = Fin (5764607523034235 / 576460752303423488)"
  by (simp add: eps_def round_double_simps)

lemma py_float_100: "py_float ''100'' = Some (Fin 100)"
  by (simp add: py_float_simps)

lemma py_float_50: "py_float ''50'' = Some (Fin 50)"
  by (simp add: py_float_simps)

lemma py_float_30: "py_float ''30'' = Some (Fin 30)"
  by (simp add: py_float_simps)

lemma py_float_1: "py_float ''1'' = Some (Fin 1)"
  by (simp add: py_float_simps)

lemma py_float_1e16: "py_float ''1e16'' = Some (Fin 10000000000000000)"
  by (simp add: py_float_simps)

lemma py_float_0005: "py_float ''0.005'' = Some (Fin (5764607523034235 / 1152921504606846976))"
  by (simp add: py_float_simps)

lemma py_float_0006: "py_float ''0.006'' = Some (Fin (3458764513820541 / 576460752303423488))"
  by (simp add: py_float_simps)

lemma py_float_abc: "py_float ''abc'' = None"
  by (simp add: py_float_simps)

lemma py_float_minus5: "py_float ''-5'' = Some (Fin (- 5))"
  by (simp add: py_float_simps)

lemma py_float_nan: "py_float ''nan'' = Some NaN"
  by (simp add: py_float_simps)

lemma py_float_inf: "py_float ''inf'' = Some PInf"
  by (simp add: py_float_simps)

section \<open>Facts about the float operations\<close>

lemma fgt_not_fle: "fgt a b \<Longrightarrow> \<not> fle a b"
  by (cases a; cases b) (simp_all add: fgt_def)

lemma round_double_zero: "round_double 0 = Fin 0"
  by (simp add: round_double_def)

lemma round_half_even_of_int: "round_half_even (of_int z) = z"
  by (simp add: round_half_even_def)

text \<open>A whole number below \<open>2\<^sup>5\<^sup>3\<close> is a double: rounding leaves it as it is.\<close>

lemma round_double_int:
  assumes "\<bar>n\<bar> < 2 ^ 53"
  shows "round_double (of_int n) = Fin (of_int n)"
proof (cases "n = 0")
  case True
  then show ?thesis by (simp add: round_double_def)
next
  case False
  let ?k = "bitlen \<bar>n\<bar>"
  from False have pos: "0 < \<bar>n\<bar>"
    by simp
  from assms have up: "?k \<le> 53"
    by (simp add: bitlen_le_iff_power)
  from pos have lo: "1 \<le> ?k"
    using bitlen_eq_zero_iff [of "\<bar>n\<bar>"] bitlen_nonneg [of "\<bar>n\<bar>"] by linarith
  from pos have "1 \<le> \<bar>n\<bar>"
    by simp
  then have "rat_of_int 1 \<le> rat_of_int \<bar>n\<bar>"
    by (simp only: of_int_le_iff)
  then have one: "(1::rat) \<le> \<bar>of_int n\<bar>"
    by simp
  have fl: "\<lfloor>\<bar>rat_of_int n\<bar>\<rfloor> = \<bar>n\<bar>"
    by (metis floor_of_int of_int_abs)
  from one fl have il: "ilog2 (of_int n) = ?k - 1"
    by (simp add: ilog2_def)
  from lo up have e: "max (ilog2 (of_int n) - 52) (- 1074) = ?k - 53"
    by (simp add: il)
  define j where "j = nat (53 - ?k)"
  from up have p: "pow2 (?k - 53) = 1 / 2 ^ j"
    by (cases "?k = 53") (simp_all add: pow2_def j_def)
  have q: "rat_of_int n / (1 / 2 ^ j) = of_int (n * 2 ^ j)"
    by simp
  have m: "round_half_even (of_int n / pow2 (?k - 53)) = n * 2 ^ j"
    unfolding p q by (rule round_half_even_of_int)
  have v: "rat_of_int (n * 2 ^ j) * pow2 (?k - 53) = of_int n"
    unfolding p by simp
  have "\<bar>rat_of_int n\<bar> < 2 ^ 53"
    using assms by (metis of_int_abs of_int_less_numeral_power_cancel_iff)
  also have "(2::rat) ^ 53 \<le> pow2 1024"
    by (simp add: pow2_def)
  finally have ov: "\<not> pow2 1024 \<le> \<bar>rat_of_int n\<bar>"
    by simp
  from False have nz: "rat_of_int n \<noteq> 0"
    by simp
  show ?thesis
    unfolding round_double_def Let_def e m v using nz ov by simp
qed

lemma is_whole_iv: "is_whole x \<Longrightarrow> x = Fin (of_int (iv x))"
  by (cases x) auto

lemma is_whole_of_int: "is_whole (Fin (of_int n))" "iv (Fin (of_int n)) = n"
  by simp_all

lemma fadd_whole:
  "\<bar>a + b\<bar> < 2 ^ 53 \<Longrightarrow> fadd (Fin (of_int a)) (Fin (of_int b)) = Fin (of_int (a + b))"
  using round_double_int [of "a + b"] by simp

lemma fsub_whole:
  "\<bar>a - b\<bar> < 2 ^ 53 \<Longrightarrow> fsub (Fin (of_int a)) (Fin (of_int b)) = Fin (of_int (a - b))"
  using round_double_int [of "a - b"] by (simp add: fsub_def)

text \<open>A left-to-right sum of whole numbers is exact when the magnitudes add up to less than \<open>2\<^sup>5\<^sup>3\<close>.\<close>

lemma foldl_fadd_whole:
  "\<bar>s\<bar> + sum_list (map abs ns) < 2 ^ 53 \<Longrightarrow>
     foldl fadd (Fin (of_int s)) (map (\<lambda>n. Fin (of_int n)) ns) = Fin (of_int (s + sum_list ns))"
proof (induction ns arbitrary: s)
  case Nil
  show ?case by simp
next
  case (Cons n ns)
  have nonneg: "0 \<le> sum_list (map abs ns)"
    by (rule sum_list_nonneg) auto
  with Cons.prems have "\<bar>s + n\<bar> < 2 ^ 53"
    by simp
  then have step: "fadd (Fin (of_int s)) (Fin (of_int n)) = Fin (of_int (s + n))"
    by (rule fadd_whole)
  from Cons.prems have "\<bar>s + n\<bar> + sum_list (map abs ns) < 2 ^ 53"
    by simp
  from Cons.IH [OF this] step show ?case
    by (simp add: add.assoc)
qed

lemma py_sum_whole:
  "sum_list (map abs ns) < 2 ^ 53 \<Longrightarrow>
     py_sum (map (\<lambda>n. Fin (of_int n)) ns) = Fin (of_int (sum_list ns))"
  using foldl_fadd_whole [of 0 ns] by (simp add: py_sum_def)

section \<open>The poster\<close>

lemma commit_ok:
  "amt \<noteq> NaN \<Longrightarrow>
     commit db [\<lparr>date = d1, description = s1, account = a1, category = c1,
                  debit = amt, credit = Fin 0\<rparr>,
                \<lparr>date = d2, description = s2, account = a2, category = c2,
                  debit = Fin 0, credit = amt\<rparr>] =
       Inr (db @ [\<lparr>date = d1, description = s1, account = a1, category = c1,
                    debit = amt, credit = Fin 0\<rparr>,
                  \<lparr>date = d2, description = s2, account = a2, category = c2,
                    debit = Fin 0, credit = amt\<rparr>])"
  by (simp add: commit_def)

lemma commit_nan:
  "commit db [\<lparr>date = d1, description = s1, account = a1, category = c1,
               debit = NaN, credit = Fin 0\<rparr>,
             \<lparr>date = d2, description = s2, account = a2, category = c2,
               debit = Fin 0, credit = NaN\<rparr>] = Inl IntegrityError"
  by (simp add: commit_def)

lemma fgt_not_nan: "fgt a b \<Longrightarrow> a \<noteq> NaN"
  by (cases a; cases b) (simp_all add: fgt_def)

text \<open>
  C2. A post whose amount parses to a value greater than 0 returns no alert and appends
  exactly two rows to the table: the debit leg (category Debit, the debit account,
  debit = amount, credit = 0) and then the credit leg (category Credit, the credit
  account, debit = 0, credit = amount), both with the description of the form and the
  same timestamp string.
\<close>

theorem add_transaction_appends_two_legs:
  assumes "float_of (amount st) = Some amt" and "fgt amt (Fin 0)"
  shows "fst (add_transaction float_of now db st) = Returned None \<and>
         fst (snd (add_transaction float_of now db st)) =
           db @ [\<lparr>date = now, description = AccountingState.description st,
                   account = debit_account st, category = ''Debit'',
                   debit = amt, credit = Fin 0\<rparr>,
                 \<lparr>date = now, description = AccountingState.description st,
                   account = credit_account st, category = ''Credit'',
                   debit = Fin 0, credit = amt\<rparr>]"
  using assms fgt_not_fle [OF assms(2)] fgt_not_nan [OF assms(2)]
  by (simp add: add_transaction_def Let_def commit_ok)

theorem add_transaction_appends_two_legs_witness:
  "py_float (amount (form ''Sold Widget'' ''100'' ''Cash'' ''Sales Revenue'')) = Some (Fin 100) \<and>
   fgt (Fin 100) (Fin 0) \<and>
   fst (add_transaction py_float minute0 []
         (form ''Sold Widget'' ''100'' ''Cash'' ''Sales Revenue'')) = Returned None \<and>
   fst (snd (add_transaction py_float minute0 []
              (form ''Sold Widget'' ''100'' ''Cash'' ''Sales Revenue''))) =
     [\<lparr>date = minute0, description = ''Sold Widget'', account = ''Cash'',
       category = ''Debit'', debit = Fin 100, credit = Fin 0\<rparr>,
      \<lparr>date = minute0, description = ''Sold Widget'', account = ''Sales Revenue'',
       category = ''Credit'', debit = Fin 0, credit = Fin 100\<rparr>]"
proof -
  have p: "py_float (amount (form ''Sold Widget'' ''100'' ''Cash'' ''Sales Revenue''))
             = Some (Fin 100)"
    by (simp add: form_sel py_float_100)
  have g: "fgt (Fin 100) (Fin 0)"
    by (simp add: fgt_def)
  from add_transaction_appends_two_legs
         [of py_float "form ''Sold Widget'' ''100'' ''Cash'' ''Sales Revenue''" "Fin 100"
             minute0 "[]", OF p g] p g
  show ?thesis by (simp add: form_sel)
qed

text \<open>
  C4. When the amount does not parse, the post returns the alert "Invalid Amount"; when
  it parses to a value that is \<^verbatim>\<open><= 0\<close>, the post returns the alert "Amount must be
  positive.". In both cases the table after the call is the table before it, and so is
  the state.
\<close>

theorem add_transaction_rejects:
  "(float_of (amount st) = None \<longrightarrow>
      add_transaction float_of now db st =
        (Returned (Some (window_alert ''Invalid Amount'')), db, st)) \<and>
   (\<forall>amt. float_of (amount st) = Some amt \<and> fle amt (Fin 0) \<longrightarrow>
      add_transaction float_of now db st =
        (Returned (Some (window_alert ''Amount must be positive.'')), db, st))"
  by (simp add: add_transaction_def)

theorem add_transaction_rejects_witness:
  "py_float (amount (form ''x'' ''abc'' ''Cash'' ''Sales Revenue'')) = None \<and>
   add_transaction py_float minute0 [] (form ''x'' ''abc'' ''Cash'' ''Sales Revenue'') =
     (Returned (Some (window_alert ''Invalid Amount'')), [],
      form ''x'' ''abc'' ''Cash'' ''Sales Revenue'') \<and>
   py_float (amount (form ''x'' ''-5'' ''Cash'' ''Sales Revenue'')) = Some (Fin (- 5)) \<and>
   fle (Fin (- 5)) (Fin 0) \<and>
   add_transaction py_float minute0 [] (form ''x'' ''-5'' ''Cash'' ''Sales Revenue'') =
     (Returned (Some (window_alert ''Amount must be positive.'')), [],
      form ''x'' ''-5'' ''Cash'' ''Sales Revenue'')"
proof -
  have a: "py_float (amount (form ''x'' ''abc'' ''Cash'' ''Sales Revenue'')) = None"
    by (simp add: form_sel py_float_abc)
  have b: "py_float (amount (form ''x'' ''-5'' ''Cash'' ''Sales Revenue'')) = Some (Fin (- 5))"
    by (simp add: form_sel py_float_minus5)
  have c: "fle (Fin (- 5)) (Fin 0)"
    by simp
  from add_transaction_rejects
         [of py_float "form ''x'' ''abc'' ''Cash'' ''Sales Revenue''" minute0 "[]"] a
  have 1: "add_transaction py_float minute0 [] (form ''x'' ''abc'' ''Cash'' ''Sales Revenue'') =
     (Returned (Some (window_alert ''Invalid Amount'')), [],
      form ''x'' ''abc'' ''Cash'' ''Sales Revenue'')"
    by blast
  from add_transaction_rejects
         [of py_float "form ''x'' ''-5'' ''Cash'' ''Sales Revenue''" minute0 "[]"] b c
  have 2: "add_transaction py_float minute0 [] (form ''x'' ''-5'' ''Cash'' ''Sales Revenue'') =
     (Returned (Some (window_alert ''Amount must be positive.'')), [],
      form ''x'' ''-5'' ''Cash'' ''Sales Revenue'')"
    by blast
  from a b c 1 2 show ?thesis by blast
qed

text \<open>
  The amount "nan" parses and passes the test \<^verbatim>\<open>amt <= 0\<close>, which is false for it. The
  commit then raises: no row is stored and the form is as it was.
\<close>

lemma add_transaction_nan:
  "add_transaction py_float minute0 [] (form ''x'' ''nan'' ''Cash'' ''Sales Revenue'') =
     (Raised IntegrityError, [], form ''x'' ''nan'' ''Cash'' ''Sales Revenue'')"
  by (simp add: add_transaction_def form_sel py_float_nan Let_def commit_nan)

text \<open>
  C9. A failed post (the amount does not parse, or parses to a value \<^verbatim>\<open><= 0\<close>) leaves
  the form fields description and amount as they were. A post that goes through, that
  is one that returns without an alert, resets the description to the empty string and
  the amount to "0"; and only such a post does: after every other call the two fields
  are as they were.
\<close>

theorem add_transaction_form_fields:
  "(float_of (amount st) = None \<or> (\<exists>amt. float_of (amount st) = Some amt \<and> fle amt (Fin 0))
      \<longrightarrow> AccountingState.description (snd (snd (add_transaction float_of now db st)))
            = AccountingState.description st \<and>
          amount (snd (snd (add_transaction float_of now db st))) = amount st) \<and>
   (fst (add_transaction float_of now db st) = Returned None
      \<longrightarrow> AccountingState.description (snd (snd (add_transaction float_of now db st))) = []
          \<and> amount (snd (snd (add_transaction float_of now db st))) = ''0'') \<and>
   (fst (add_transaction float_of now db st) \<noteq> Returned None
      \<longrightarrow> AccountingState.description (snd (snd (add_transaction float_of now db st)))
            = AccountingState.description st \<and>
          amount (snd (snd (add_transaction float_of now db st))) = amount st)"
  by (auto simp: add_transaction_def load_entries_def Let_def split: option.splits sum.splits)

theorem add_transaction_form_fields_witness:
  "(py_float (amount (form ''x'' ''-5'' ''Cash'' ''Sales Revenue'')) = None \<or>
    (\<exists>amt. py_float (amount (form ''x'' ''-5'' ''Cash'' ''Sales Revenue'')) = Some amt
            \<and> fle amt (Fin 0))) \<and>
   AccountingState.description
     (snd (snd (add_transaction py_float minute0 [] (form ''x'' ''-5'' ''Cash'' ''Sales Revenue''))))
     = ''x'' \<and>
   amount (snd (snd (add_transaction py_float minute0 [] (form ''x'' ''-5'' ''Cash'' ''Sales Revenue''))))
     = ''-5'' \<and>
   fst (add_transaction py_float minute0 [] (form ''x'' ''100'' ''Cash'' ''Sales Revenue''))
     = Returned None \<and>
   AccountingState.description
     (snd (snd (add_transaction py_float minute0 [] (form ''x'' ''100'' ''Cash'' ''Sales Revenue''))))
     = [] \<and>
   amount (snd (snd (add_transaction py_float minute0 [] (form ''x'' ''100'' ''Cash'' ''Sales Revenue''))))
     = ''0'' \<and>
   fst (add_transaction py_float minute0 [] (form ''x'' ''nan'' ''Cash'' ''Sales Revenue''))
     = Raised IntegrityError \<and>
   AccountingState.description
     (snd (snd (add_transaction py_float minute0 [] (form ''x'' ''nan'' ''Cash'' ''Sales Revenue''))))
     = ''x'' \<and>
   amount (snd (snd (add_transaction py_float minute0 [] (form ''x'' ''nan'' ''Cash'' ''Sales Revenue''))))
     = ''nan''"
proof -
  have a: "py_float (amount (form ''x'' ''-5'' ''Cash'' ''Sales Revenue'')) = None \<or>
    (\<exists>amt. py_float (amount (form ''x'' ''-5'' ''Cash'' ''Sales Revenue'')) = Some amt
            \<and> fle amt (Fin 0))"
    by (simp add: form_sel py_float_minus5)
  have b: "fst (add_transaction py_float minute0 [] (form ''x'' ''100'' ''Cash'' ''Sales Revenue''))
     = Returned None"
    by (simp add: add_transaction_def form_sel py_float_100 Let_def commit_ok)
  have c: "fst (add_transaction py_float minute0 [] (form ''x'' ''nan'' ''Cash'' ''Sales Revenue''))
     = Raised IntegrityError"
    by (simp add: add_transaction_nan)
  then have c': "fst (add_transaction py_float minute0 [] (form ''x'' ''nan'' ''Cash'' ''Sales Revenue''))
     \<noteq> Returned None"
    by simp
  from add_transaction_form_fields
         [of py_float "form ''x'' ''-5'' ''Cash'' ''Sales Revenue''" minute0 "[]"] a
  have 1: "AccountingState.description
     (snd (snd (add_transaction py_float minute0 [] (form ''x'' ''-5'' ''Cash'' ''Sales Revenue''))))
     = ''x'' \<and>
   amount (snd (snd (add_transaction py_float minute0 [] (form ''x'' ''-5'' ''Cash'' ''Sales Revenue''))))
     = ''-5''"
    by (simp only: form_sel)
  from add_transaction_form_fields
         [of py_float "form ''x'' ''100'' ''Cash'' ''Sales Revenue''" minute0 "[]"] b
  have 2: "AccountingState.description
     (snd (snd (add_transaction py_float minute0 [] (form ''x'' ''100'' ''Cash'' ''Sales Revenue''))))
     = [] \<and>
   amount (snd (snd (add_transaction py_float minute0 [] (form ''x'' ''100'' ''Cash'' ''Sales Revenue''))))
     = ''0''"
    by blast
  from add_transaction_form_fields
         [of py_float "form ''x'' ''nan'' ''Cash'' ''Sales Revenue''" minute0 "[]"] c'
  have 3: "AccountingState.description
     (snd (snd (add_transaction py_float minute0 [] (form ''x'' ''nan'' ''Cash'' ''Sales Revenue''))))
     = ''x'' \<and>
   amount (snd (snd (add_transaction py_float minute0 [] (form ''x'' ''nan'' ''Cash'' ''Sales Revenue''))))
     = ''nan''"
    by (simp only: form_sel) blast
  from a b c 1 2 3 show ?thesis by blast
qed

text \<open>
  One post stores nothing or two rows that meet the constraints: an amount that parses,
  passes the test \<^verbatim>\<open>amt <= 0\<close> and is stored is greater than 0.
\<close>

lemma add_transaction_rows_ok:
  "list_all entry_ok db \<Longrightarrow> list_all entry_ok (fst (snd (add_transaction float_of now db st)))"
proof (cases "float_of (amount st)")
  case None
  assume "list_all entry_ok db"
  with None show ?thesis
    by (simp add: add_transaction_def)
next
  case (Some amt)
  assume ok: "list_all entry_ok db"
  show ?thesis
  proof (cases "fle amt (Fin 0) \<or> amt = NaN")
    case True
    with Some ok show ?thesis
      by (auto simp: add_transaction_def Let_def commit_nan)
  next
    case False
    then have "fge amt (Fin 0)"
      by (cases amt) (auto simp: fge_def)
    with False Some ok show ?thesis
      by (simp add: add_transaction_def Let_def commit_ok entry_ok_def fge_def)
  qed
qed

text \<open>
  C7. After any sequence of posts, every row of the table meets the two field
  constraints: its debit is a non-negative amount that is 0 unless the category is Debit,
  its credit a non-negative amount that is 0 unless the category is Credit. So do the two
  rows that any one post adds to a table.
\<close>

theorem stored_rows_ok:
  "list_all entry_ok (post_all float_of ps []) \<and>
   list_all entry_ok (drop (length db) (fst (snd (add_transaction float_of now db st))))"
proof
  have "list_all entry_ok db' \<Longrightarrow> list_all entry_ok (post_all float_of ps db')" for db'
  proof (induction ps arbitrary: db')
    case Nil
    then show ?case by simp
  next
    case (Cons p ps)
    obtain now' st' where p: "p = (now', st')"
      by (cases p)
    from Cons.prems have "list_all entry_ok (fst (snd (add_transaction float_of now' db' st')))"
      by (rule add_transaction_rows_ok)
    then show ?case
      unfolding p by (simp add: Cons.IH)
  qed
  then show "list_all entry_ok (post_all float_of ps [])"
    by simp
next
  show "list_all entry_ok (drop (length db) (fst (snd (add_transaction float_of now db st))))"
  proof (cases "float_of (amount st)")
    case None
    then show ?thesis
      by (simp add: add_transaction_def)
  next
    case (Some amt)
    show ?thesis
    proof (cases "fle amt (Fin 0) \<or> amt = NaN")
      case True
      with Some show ?thesis
        by (auto simp: add_transaction_def Let_def commit_nan)
    next
      case False
      then have "fge amt (Fin 0)"
        by (cases amt) (auto simp: fge_def)
      with False Some show ?thesis
        by (simp add: add_transaction_def Let_def commit_ok entry_ok_def fge_def)
    qed
  qed
qed

theorem stored_rows_ok_witness:
  "post_all py_float
     [(minute0, form ''x'' ''nan'' ''Cash'' ''Sales Revenue''),
      (minute0, form ''Sold Widget'' ''100'' ''Cash'' ''Sales Revenue'')] [] =
     [\<lparr>date = minute0, description = ''Sold Widget'', account = ''Cash'',
       category = ''Debit'', debit = Fin 100, credit = Fin 0\<rparr>,
      \<lparr>date = minute0, description = ''Sold Widget'', account = ''Sales Revenue'',
       category = ''Credit'', debit = Fin 0, credit = Fin 100\<rparr>] \<and>
   list_all entry_ok (post_all py_float
     [(minute0, form ''x'' ''nan'' ''Cash'' ''Sales Revenue''),
      (minute0, form ''Sold Widget'' ''100'' ''Cash'' ''Sales Revenue'')] [])"
proof -
  have "post_all py_float
     [(minute0, form ''x'' ''nan'' ''Cash'' ''Sales Revenue''),
      (minute0, form ''Sold Widget'' ''100'' ''Cash'' ''Sales Revenue'')] [] =
     [\<lparr>date = minute0, description = ''Sold Widget'', account = ''Cash'',
       category = ''Debit'', debit = Fin 100, credit = Fin 0\<rparr>,
      \<lparr>date = minute0, description = ''Sold Widget'', account = ''Sales Revenue'',
       category = ''Credit'', debit = Fin 0, credit = Fin 100\<rparr>]"
    by (simp add: add_transaction_nan)
       (simp add: add_transaction_def form_sel py_float_100 Let_def commit_ok)
  with stored_rows_ok [of py_float
     "[(minute0, form ''x'' ''nan'' ''Cash'' ''Sales Revenue''),
       (minute0, form ''Sold Widget'' ''100'' ''Cash'' ''Sales Revenue'')]" "[]" minute0
     "form ''x'' ''nan'' ''Cash'' ''Sales Revenue''"]
  show ?thesis by simp
qed

section \<open>The ledger query\<close>

lemma mset_insert_desc: "mset (insert_desc e xs) = add_mset e (mset xs)"
  by (induction xs) simp_all

lemma set_insert_desc: "set (insert_desc e xs) = insert e (set xs)"
  by (induction xs) auto

lemma sorted_insert_desc:
  "sorted_wrt (\<lambda>x y. date y \<le> date x) xs
    \<Longrightarrow> sorted_wrt (\<lambda>x y. date y \<le> date x) (insert_desc e xs)"
  by (induction xs) (auto simp: set_insert_desc)

lemma filter_insert_desc:
  "sorted_wrt (\<lambda>x y. date y \<le> date x) xs
    \<Longrightarrow> filter (\<lambda>x. date x = d) (insert_desc e xs) =
        filter (\<lambda>x. date x = d) xs @ (if date e = d then [e] else [])"
proof (induction xs)
  case Nil
  show ?case by simp
next
  case (Cons x xs)
  show ?case
  proof (cases "date x < date e")
    case True
    with Cons.prems have "\<forall>y \<in> set (x # xs). date y \<noteq> date e"
      by auto
    then have "filter (\<lambda>x. date x = date e) (x # xs) = []"
      by (simp only: filter_empty_conv)
    with True show ?thesis by auto
  next
    case False
    with Cons show ?thesis by simp
  qed
qed

lemma order_by_date_desc_snoc:
  "order_by_date_desc (es @ [e]) = insert_desc e (order_by_date_desc es)"
  by (simp add: order_by_date_desc_def)

lemma mset_order_by_date_desc: "mset (order_by_date_desc es) = mset es"
  by (induction es rule: rev_induct)
     (simp_all add: order_by_date_desc_snoc mset_insert_desc, simp add: order_by_date_desc_def)

lemma sorted_order_by_date_desc:
  "sorted_wrt (\<lambda>x y. date y \<le> date x) (order_by_date_desc es)"
  by (induction es rule: rev_induct)
     (simp_all add: order_by_date_desc_snoc sorted_insert_desc, simp add: order_by_date_desc_def)

lemma filter_order_by_date_desc:
  "filter (\<lambda>x. date x = d) (order_by_date_desc es) = filter (\<lambda>x. date x = d) es"
proof (induction es rule: rev_induct)
  case Nil
  show ?case by (simp add: order_by_date_desc_def)
next
  case (snoc e es)
  then show ?case
    by (simp add: order_by_date_desc_snoc filter_insert_desc [OF sorted_order_by_date_desc])
qed

text \<open>
  C6, as the code has it. The ledger of an account holds exactly the stored rows of that
  account, by date descending; rows of equal date keep their insertion order, the row
  inserted first coming first.
\<close>

theorem get_ledger_entries_sorted_stable:
  "mset (ledger_entries (get_ledger_entries db st)) =
     mset (filter (\<lambda>e. JournalEntry.account e = selected_account st) db) \<and>
   sorted_wrt (\<lambda>x y. date y \<le> date x) (ledger_entries (get_ledger_entries db st)) \<and>
   (\<forall>d. filter (\<lambda>e. date e = d) (ledger_entries (get_ledger_entries db st)) =
        filter (\<lambda>e. date e = d)
          (filter (\<lambda>e. JournalEntry.account e = selected_account st) db))"
  by (simp add: get_ledger_entries_def mset_order_by_date_desc sorted_order_by_date_desc
        filter_order_by_date_desc)

text \<open>
  C6, as the claim has it, fails: two posts to Cash within one minute come back in
  insertion order, not reversed.
\<close>

theorem get_ledger_entries_ties_counterexample:
  "ledger_entries
     (get_ledger_entries
        (post_all py_float
           [(minute0, form ''first'' ''100'' ''Cash'' ''Sales Revenue''),
            (minute0, form ''second'' ''100'' ''Cash'' ''Sales Revenue'')] [])
        ledger0)
   \<noteq> entriesForAccount_spec ''Cash''
        (post_all py_float
           [(minute0, form ''first'' ''100'' ''Cash'' ''Sales Revenue''),
            (minute0, form ''second'' ''100'' ''Cash'' ''Sales Revenue'')] [])"
  by (simp add: add_transaction_def form_sel py_float_100 Let_def commit_ok get_ledger_entries_def
        ledger0_def order_by_date_desc_def entriesForAccount_spec_def)

lemma distinct_accounts_set: "set (distinct_accounts seen as) = set seen \<union> set as"
  by (induction as arbitrary: seen) auto

lemma distinct_accounts_distinct: "distinct seen \<Longrightarrow> distinct (distinct_accounts seen as)"
  by (induction as arbitrary: seen) auto

text \<open>
  C10. After \<open>get_accounts\<close>, when the list of distinct accounts is not empty and the
  account selected before is not in it, the selected account is the first of the list;
  and in every case the ledger entries are those of the account selected after the call:
  its rows of the table, by date descending.
\<close>

theorem get_accounts_selects_and_reloads:
  "(distinct_accounts [] (map JournalEntry.account db) \<noteq> [] \<and>
    selected_account st \<notin> set (distinct_accounts [] (map JournalEntry.account db))
      \<longrightarrow> selected_account (get_accounts db st) =
            hd (distinct_accounts [] (map JournalEntry.account db))) \<and>
   available_accounts (get_accounts db st) = distinct_accounts [] (map JournalEntry.account db) \<and>
   ledger_entries (get_accounts db st) =
     order_by_date_desc
       (filter (\<lambda>e. JournalEntry.account e = selected_account (get_accounts db st)) db)"
  by (cases "distinct_accounts [] (map JournalEntry.account db)")
     (simp_all add: get_accounts_def get_ledger_entries_def Let_def)

theorem get_accounts_selects_and_reloads_witness:
  "distinct_accounts [] (map JournalEntry.account
      (post_all py_float [(minute0, form ''rent'' ''100'' ''Rent Expense'' ''Bank Loan'')] [])) \<noteq> [] \<and>
   selected_account ledger0 \<notin> set (distinct_accounts [] (map JournalEntry.account
      (post_all py_float [(minute0, form ''rent'' ''100'' ''Rent Expense'' ''Bank Loan'')] []))) \<and>
   selected_account (get_accounts
      (post_all py_float [(minute0, form ''rent'' ''100'' ''Rent Expense'' ''Bank Loan'')] [])
      ledger0) = ''Rent Expense'' \<and>
   ledger_entries (get_accounts
      (post_all py_float [(minute0, form ''rent'' ''100'' ''Rent Expense'' ''Bank Loan'')] [])
      ledger0) =
     [\<lparr>date = minute0, description = ''rent'', account = ''Rent Expense'',
       category = ''Debit'', debit = Fin 100, credit = Fin 0\<rparr>]"
proof -
  have db: "post_all py_float [(minute0, form ''rent'' ''100'' ''Rent Expense'' ''Bank Loan'')] [] =
     [\<lparr>date = minute0, description = ''rent'', account = ''Rent Expense'',
       category = ''Debit'', debit = Fin 100, credit = Fin 0\<rparr>,
      \<lparr>date = minute0, description = ''rent'', account = ''Bank Loan'',
       category = ''Credit'', debit = Fin 0, credit = Fin 100\<rparr>]"
    by (simp add: add_transaction_def form_sel py_float_100 Let_def commit_ok)
  have accs: "distinct_accounts [] (map JournalEntry.account
      (post_all py_float [(minute0, form ''rent'' ''100'' ''Rent Expense'' ''Bank Loan'')] []))
      = [''Rent Expense'', ''Bank Loan'']"
    unfolding db by simp
  from get_accounts_selects_and_reloads
         [of "post_all py_float [(minute0, form ''rent'' ''100'' ''Rent Expense'' ''Bank Loan'')] []"
             ledger0]
  show ?thesis
    unfolding accs unfolding db by (simp add: ledger0_def order_by_date_desc_def)
qed

section \<open>The two loops of the trial balance\<close>

text \<open>
  C8. The computation reads the table and overwrites the three fields of the state; what
  was in them before plays no part. So a second run on the same table gives the state of
  the first, and two runs from different states give the same rows and totals.
\<close>

theorem calculate_trial_balance_idempotent:
  "calculate_trial_balance fmt db (calculate_trial_balance fmt db st) =
     calculate_trial_balance fmt db st \<and>
   rows (calculate_trial_balance fmt db st') = rows (calculate_trial_balance fmt db st) \<and>
   total_dr (calculate_trial_balance fmt db st') = total_dr (calculate_trial_balance fmt db st) \<and>
   total_cr (calculate_trial_balance fmt db st') = total_cr (calculate_trial_balance fmt db st)"
  by (simp add: calculate_trial_balance_def Let_def split: prod.splits)

lemma update_update: "AList.update k v (AList.update k w m) = AList.update k v m"
  by (induction m) auto

lemma lookup0_Nil: "lookup0 [] a = Fin 0"
  by (simp add: lookup0_def)

lemma lookup0_update:
  "lookup0 (AList.update k v m) a = (if a = k then v else lookup0 m a)"
  by (simp add: lookup0_def update_conv')

text \<open>One turn of the first loop: the net of the row's account grows by debit minus credit.\<close>

lemma aggregate_Cons:
  "aggregate (e # es) m =
     aggregate es
       (AList.update (JournalEntry.account e)
          (fadd (lookup0 m (JournalEntry.account e)) (fsub (debit e) (credit e))) m)"
  by (cases "map_of m (JournalEntry.account e)")
     (simp_all add: Let_def lookup0_def update_conv' update_update)

lemma aggregate_keys:
  "map fst (aggregate es m) = distinct_accounts (map fst m) (map JournalEntry.account es)"
  by (induction es arbitrary: m) (simp_all only: aggregate_Cons, simp_all add: update_keys)

lemma aggregate_values:
  "lookup0 (aggregate es m) a =
     foldl fadd (lookup0 m a)
       (map (\<lambda>e. fsub (debit e) (credit e)) (filter (\<lambda>e. JournalEntry.account e = a) es))"
  by (induction es arbitrary: m) (simp_all only: aggregate_Cons, simp_all add: lookup0_update)

lemma aggregate_distinct:
  "distinct (map fst m) \<Longrightarrow> distinct (map fst (aggregate es m))"
  by (induction es arbitrary: m) (simp_all only: aggregate_Cons, simp_all add: distinct_update)

lemma alist_by_keys:
  "distinct (map fst m) \<Longrightarrow> map (\<lambda>k. (k, lookup0 m k)) (map fst m) = m"
proof (induction m)
  case Nil
  show ?case by simp
next
  case (Cons p m)
  obtain k v where p: "p = (k, v)"
    by (cases p)
  from Cons.prems p have notin: "k \<notin> set (map fst m)" and d: "distinct (map fst m)"
    by simp_all
  have "map (\<lambda>k'. (k', lookup0 ((k, v) # m) k')) (map fst m) =
        map (\<lambda>k'. (k', lookup0 m k')) (map fst m)"
  proof (rule map_cong [OF refl])
    fix k'
    assume "k' \<in> set (map fst m)"
    with notin have "k' \<noteq> k"
      by blast
    then show "(k', lookup0 ((k, v) # m) k') = (k', lookup0 m k')"
      by (simp add: lookup0_def)
  qed
  also have "\<dots> = m"
    by (rule Cons.IH [OF d])
  finally have tl: "map (\<lambda>k'. (k', lookup0 ((k, v) # m) k')) (map fst m) = m" .
  have hd: "lookup0 ((k, v) # m) k = v"
    by (simp add: lookup0_def)
  show ?case
    unfolding p using hd tl by simp
qed

lemma aggregate_nets: "aggregate db [] = nets db"
proof -
  have "aggregate db [] =
          map (\<lambda>k. (k, lookup0 (aggregate db []) k)) (map fst (aggregate db []))"
    by (rule alist_by_keys [symmetric]) (simp add: aggregate_distinct)
  also have "\<dots> = nets db"
    by (simp add: aggregate_keys aggregate_values nets_def net_of_def py_sum_def lookup0_Nil)
  finally show ?thesis .
qed

lemma rows_loop_eq:
  "rows_loop fmt items (new_rows, t_dr, t_cr) =
     (new_rows @ map (row_of fmt) (filter emitted items),
      foldl fadd t_dr (map (\<lambda>p. dr_of (snd p)) (filter emitted items)),
      foldl fadd t_cr (map (\<lambda>p. cr_of (snd p)) (filter emitted items)))"
  by (induction items arbitrary: new_rows t_dr t_cr)
     (auto simp: emitted_def row_of_def dr_of_def cr_of_def Let_def)

lemma calculate_trial_balance_eq:
  "calculate_trial_balance fmt db st =
     st\<lparr>rows := map (row_of fmt) (filter emitted (nets db)),
        total_dr := py_sum (map (\<lambda>p. dr_of (snd p)) (filter emitted (nets db))),
        total_cr := py_sum (map (\<lambda>p. cr_of (snd p)) (filter emitted (nets db)))\<rparr>"
  by (simp add: calculate_trial_balance_def aggregate_nets rows_loop_eq py_sum_def Let_def)

lemma emitted_fge: "snd p \<noteq> NaN \<Longrightarrow> emitted p = fge (fabs (snd p)) eps"
  by (cases "snd p") (auto simp: emitted_def fge_def eps_value)

lemma row_of_spec: "snd p \<noteq> NaN \<Longrightarrow> emitted p \<Longrightarrow> row_of fmt p = row_spec fmt p"
  by (cases "snd p")
     (auto simp: emitted_def row_of_def row_spec_def dr_of_def cr_of_def fgt_def eps_value)

text \<open>
  C3, as the code has it. The first loop leaves, for every account in the order of first
  use, the sum of debit minus credit over the rows of the account. When no net is
  \<^verbatim>\<open>nan\<close>, the rows of the trial balance are those of the accounts with
  \<^verbatim>\<open>abs(net) >= 0.01\<close>, in that order, the net in the debit column when it is positive
  and its absolute value in the credit column when it is negative. On the empty table
  there are no rows, both totals are 0, and the books are balanced.
\<close>

theorem calculate_trial_balance_rows:
  assumes "list_all (\<lambda>p. snd p \<noteq> NaN) (nets db)"
  shows "aggregate db [] = nets db \<and>
         rows (calculate_trial_balance fmt db st) = trial_rows_spec fmt db \<and>
         calculate_trial_balance fmt [] st = st\<lparr>rows := [], total_dr := Fin 0, total_cr := Fin 0\<rparr> \<and>
         is_balanced (calculate_trial_balance fmt [] st)"
proof -
  have f: "filter emitted (nets db) = filter (\<lambda>p. fge (fabs (snd p)) eps) (nets db)"
    using assms by (intro filter_cong refl) (simp add: emitted_fge list_all_iff)
  have "map (row_of fmt) (filter emitted (nets db)) = map (row_spec fmt) (filter emitted (nets db))"
    using assms by (intro map_cong refl) (simp add: row_of_spec list_all_iff)
  then have r: "rows (calculate_trial_balance fmt db st) = trial_rows_spec fmt db"
    by (simp add: calculate_trial_balance_eq trial_rows_spec_def f)
  have e: "calculate_trial_balance fmt [] st = st\<lparr>rows := [], total_dr := Fin 0, total_cr := Fin 0\<rparr>"
    by (simp add: calculate_trial_balance_def)
  have "is_balanced (st\<lparr>rows := [], total_dr := Fin 0, total_cr := Fin 0\<rparr>)"
    by (simp add: is_balanced_def fsub_def round_double_def eps_value)
  with aggregate_nets r e show ?thesis
    by simp
qed

theorem calculate_trial_balance_rows_witness:
  "list_all (\<lambda>p. snd p \<noteq> NaN)
     (nets (post_all py_float
        [(minute0, form ''Sold Widget'' ''100'' ''Cash'' ''Sales Revenue''),
         (minute0, form ''Pens'' ''0.005'' ''Supplies'' ''Accounts Payable'')] [])) \<and>
   nets (post_all py_float
        [(minute0, form ''Sold Widget'' ''100'' ''Cash'' ''Sales Revenue''),
         (minute0, form ''Pens'' ''0.005'' ''Supplies'' ''Accounts Payable'')] []) =
     [(''Cash'', Fin 100), (''Sales Revenue'', Fin (- 100)),
      (''Supplies'', Fin (5764607523034235 / 1152921504606846976)), (''Accounts Payable'', Fin (- (5764607523034235 / 1152921504606846976)))] \<and>
   rows (calculate_trial_balance format_2f
      (post_all py_float
        [(minute0, form ''Sold Widget'' ''100'' ''Cash'' ''Sales Revenue''),
         (minute0, form ''Pens'' ''0.005'' ''Supplies'' ''Accounts Payable'')] []) tb0) =
     [\<lparr>account = ''Cash'', debit_balance = Fin 100, credit_balance = Fin 0,
       formatted_debit = ''100.00'', formatted_credit = ''0.00''\<rparr>,
      \<lparr>account = ''Sales Revenue'', debit_balance = Fin 0, credit_balance = Fin 100,
       formatted_debit = ''0.00'', formatted_credit = ''100.00''\<rparr>]"
proof -
  have n: "nets (post_all py_float
        [(minute0, form ''Sold Widget'' ''100'' ''Cash'' ''Sales Revenue''),
         (minute0, form ''Pens'' ''0.005'' ''Supplies'' ''Accounts Payable'')] []) =
     [(''Cash'', Fin 100), (''Sales Revenue'', Fin (- 100)),
      (''Supplies'', Fin (5764607523034235 / 1152921504606846976)), (''Accounts Payable'', Fin (- (5764607523034235 / 1152921504606846976)))]"
    by (simp add: add_transaction_def form_sel Let_def commit_ok py_float_100 py_float_0005
          nets_def net_of_def py_sum_def fsub_def round_double_simps)
  have h: "list_all (\<lambda>p. snd p \<noteq> NaN)
     (nets (post_all py_float
        [(minute0, form ''Sold Widget'' ''100'' ''Cash'' ''Sales Revenue''),
         (minute0, form ''Pens'' ''0.005'' ''Supplies'' ''Accounts Payable'')] []))"
    unfolding n by simp
  have "trial_rows_spec format_2f (post_all py_float
        [(minute0, form ''Sold Widget'' ''100'' ''Cash'' ''Sales Revenue''),
         (minute0, form ''Pens'' ''0.005'' ''Supplies'' ''Accounts Payable'')] []) =
     [\<lparr>account = ''Cash'', debit_balance = Fin 100, credit_balance = Fin 0,
       formatted_debit = ''100.00'', formatted_credit = ''0.00''\<rparr>,
      \<lparr>account = ''Sales Revenue'', debit_balance = Fin 0, credit_balance = Fin 100,
       formatted_debit = ''0.00'', formatted_credit = ''100.00''\<rparr>]"
    unfolding trial_rows_spec_def n
    by (simp add: row_spec_def fge_def fgt_def format_2f_simps eps_value)
  with calculate_trial_balance_rows [OF h, of format_2f tb0] n h show ?thesis
    by simp
qed

text \<open>
  C3, as the claim has it, fails on a net that is \<^verbatim>\<open>nan\<close>. One post of the amount "inf"
  from Cash to Cash is accepted; the net of Cash is \<^verbatim>\<open>inf - inf\<close>. The test
  \<^verbatim>\<open>abs(net) < 0.01\<close> is false for it, so the code emits a row, with 0 in both columns;
  \<^verbatim>\<open>abs(net) >= 0.01\<close> is false as well, so the claim has no row.
\<close>

theorem calculate_trial_balance_nan_counterexample:
  "nets (post_all py_float [(minute0, form ''x'' ''inf'' ''Cash'' ''Cash'')] []) = [(''Cash'', NaN)] \<and>
   rows (calculate_trial_balance format_2f
      (post_all py_float [(minute0, form ''x'' ''inf'' ''Cash'' ''Cash'')] []) tb0) =
     [\<lparr>account = ''Cash'', debit_balance = Fin 0, credit_balance = Fin 0,
       formatted_debit = ''0.00'', formatted_credit = ''0.00''\<rparr>] \<and>
   trial_rows_spec format_2f
      (post_all py_float [(minute0, form ''x'' ''inf'' ''Cash'' ''Cash'')] []) = []"
proof -
  have n: "nets (post_all py_float [(minute0, form ''x'' ''inf'' ''Cash'' ''Cash'')] []) =
             [(''Cash'', NaN)]"
    by (simp add: add_transaction_def form_sel Let_def commit_ok py_float_inf
          nets_def net_of_def py_sum_def fsub_def round_double_simps)
  have r: "rows (calculate_trial_balance format_2f
      (post_all py_float [(minute0, form ''x'' ''inf'' ''Cash'' ''Cash'')] []) tb0) =
     [\<lparr>account = ''Cash'', debit_balance = Fin 0, credit_balance = Fin 0,
       formatted_debit = ''0.00'', formatted_credit = ''0.00''\<rparr>]"
    unfolding calculate_trial_balance_eq n
    by (simp add: emitted_def row_of_def dr_of_def cr_of_def fgt_def format_2f_simps eps_value)
  have s: "trial_rows_spec format_2f
      (post_all py_float [(minute0, form ''x'' ''inf'' ''Cash'' ''Cash'')] []) = []"
    unfolding trial_rows_spec_def n by (simp add: fge_def eps_value)
  from n r s show ?thesis by simp
qed

section \<open>The double-entry identity\<close>

lemma abs_of_int_ge1: "n \<noteq> 0 \<Longrightarrow> 1 \<le> \<bar>rat_of_int n\<bar>"
proof -
  assume "n \<noteq> 0"
  then have "1 \<le> \<bar>n\<bar>"
    by simp
  then have "rat_of_int 1 \<le> rat_of_int \<bar>n\<bar>"
    by (simp only: of_int_le_iff)
  then show ?thesis
    by simp
qed

lemma whole_post_step:
  assumes "float_of (amount st) = Some x" and "is_whole x" and "0 < iv x"
  shows "fst (snd (add_transaction float_of now db st)) =
           db @ [\<lparr>date = now, description = AccountingState.description st,
                   account = debit_account st, category = ''Debit'',
                   debit = x, credit = Fin 0\<rparr>,
                 \<lparr>date = now, description = AccountingState.description st,
                   account = credit_account st, category = ''Credit'',
                   debit = Fin 0, credit = x\<rparr>]"
proof -
  from assms(2,3) have "\<not> fle x (Fin 0)" and "x \<noteq> NaN"
    by (cases x; auto)+
  with assms(1) show ?thesis
    by (simp add: add_transaction_def Let_def commit_ok)
qed

lemma post_all_whole:
  "whole_posts float_of ps \<Longrightarrow> whole_rows db \<Longrightarrow>
     whole_rows (post_all float_of ps db) \<and>
     sum_list (map irow (post_all float_of ps db)) = sum_list (map irow db) \<and>
     sum_list (map weight (post_all float_of ps db)) =
       sum_list (map weight db) + 2 * posts_total float_of ps"
proof (induction ps arbitrary: db)
  case Nil
  then show ?case by (simp add: posts_total_def)
next
  case (Cons p ps)
  obtain now st where p: "p = (now, st)"
    by (cases p)
  from Cons.prems(1) p obtain x where x: "float_of (amount st) = Some x" "is_whole x" "0 < iv x"
    by (auto simp: whole_posts_def split: option.splits)
  let ?db = "fst (snd (add_transaction float_of now db st))"
  note step = whole_post_step [of float_of st x now db, OF x]
  from Cons.prems(2) x(2) have w: "whole_rows ?db"
    by (simp add: step whole_rows_def)
  have n: "sum_list (map irow ?db) = sum_list (map irow db)"
    by (simp add: step irow_def)
  from x(3) have t: "sum_list (map weight ?db) = sum_list (map weight db) + 2 * iv x"
    by (simp add: step weight_def)
  from Cons.prems(1) p have rest: "whole_posts float_of ps"
    by (simp add: whole_posts_def)
  have total: "posts_total float_of (p # ps) = iv x + posts_total float_of ps"
    by (simp add: posts_total_def p x(1))
  from Cons.IH [OF rest w] n t total show ?case
    by (simp add: p)
qed

lemma weight_nonneg: "0 \<le> weight e"
  by (simp add: weight_def)

lemma abs_irow_le: "\<bar>irow e\<bar> \<le> weight e"
  by (simp add: irow_def weight_def)

lemma sum_weight_nonneg: "0 \<le> sum_list (map weight es)"
  by (rule sum_list_nonneg) (auto simp: weight_nonneg)

lemma sum_weight_filter: "sum_list (map weight (filter P es)) \<le> sum_list (map weight es)"
  by (induction es) (auto simp: weight_nonneg intro: add_increasing)

lemma abs_sum_irow: "\<bar>sum_list (map irow es)\<bar> \<le> sum_list (map weight es)"
proof (induction es)
  case Nil
  show ?case by simp
next
  case (Cons e es)
  have "\<bar>irow e + sum_list (map irow es)\<bar> \<le> \<bar>irow e\<bar> + \<bar>sum_list (map irow es)\<bar>"
    by (rule abs_triangle_ineq)
  with Cons abs_irow_le [of e] show ?case
    by simp
qed

text \<open>The first loop on whole-number rows: every running net is exact.\<close>

lemma foldl_rows_whole:
  "whole_rows es \<Longrightarrow> \<bar>s\<bar> + sum_list (map weight es) < 2 ^ 53 \<Longrightarrow>
     foldl fadd (Fin (of_int s)) (map (\<lambda>e. fsub (debit e) (credit e)) es) =
       Fin (of_int (s + sum_list (map irow es)))"
proof (induction es arbitrary: s)
  case Nil
  show ?case by simp
next
  case (Cons e es)
  from Cons.prems(1) have d: "debit e = Fin (of_int (iv (debit e)))"
    and c: "credit e = Fin (of_int (iv (credit e)))" and rest: "whole_rows es"
    by (simp_all add: whole_rows_def is_whole_iv)
  note nonneg = sum_weight_nonneg [of es]
  from Cons.prems(2) nonneg abs_irow_le [of e] have small: "\<bar>irow e\<bar> < 2 ^ 53"
    by simp
  have sub: "fsub (debit e) (credit e) = Fin (of_int (irow e))"
    by (subst d, subst c) (use small in \<open>simp add: fsub_whole irow_def\<close>)
  from Cons.prems(2) nonneg abs_irow_le [of e] have "\<bar>s + irow e\<bar> < 2 ^ 53"
    by simp
  then have add: "fadd (Fin (of_int s)) (Fin (of_int (irow e))) = Fin (of_int (s + irow e))"
    by (rule fadd_whole)
  from Cons.prems(2) abs_irow_le [of e]
  have "\<bar>s + irow e\<bar> + sum_list (map weight es) < 2 ^ 53"
    by simp
  from Cons.IH [OF rest this] sub add show ?case
    by (simp add: add.assoc)
qed

lemma net_of_whole:
  assumes "whole_rows db" and "sum_list (map weight db) < 2 ^ 53"
  shows "net_of a db =
           Fin (of_int (sum_list (map irow (filter (\<lambda>e. JournalEntry.account e = a) db))))"
proof -
  let ?es = "filter (\<lambda>e. JournalEntry.account e = a) db"
  from assms(1) have w: "whole_rows ?es"
    by (simp add: whole_rows_def list_all_iff)
  from assms(2) sum_weight_filter [of "\<lambda>e. JournalEntry.account e = a" db]
  have "\<bar>0::int\<bar> + sum_list (map weight ?es) < 2 ^ 53"
    by simp
  from foldl_rows_whole [OF w this] show ?thesis
    by (simp add: net_of_def py_sum_def)
qed

lemma sum_list_delta0:
  "k \<notin> set ks \<Longrightarrow> sum_list (map (\<lambda>a. if k = a then c else (0::int)) ks) = 0"
  by (induction ks) auto

lemma sum_list_delta:
  "distinct ks \<Longrightarrow> k \<in> set ks \<Longrightarrow> sum_list (map (\<lambda>a. if k = a then c else (0::int)) ks) = c"
  by (induction ks) (auto simp: sum_list_delta0)

text \<open>A sum over the rows is the sum, over the accounts, of the sums over each account's rows.\<close>

lemma sum_list_by_account:
  fixes f :: "JournalEntry \<Rightarrow> int"
  shows "distinct ks \<Longrightarrow> JournalEntry.account ` set es \<subseteq> set ks \<Longrightarrow>
     sum_list (map (\<lambda>a. sum_list (map f (filter (\<lambda>e. JournalEntry.account e = a) es))) ks)
       = sum_list (map f es)"
proof (induction es)
  case Nil
  show ?case by (simp add: sum_list_0)
next
  case (Cons e es)
  have "sum_list (map (\<lambda>a. sum_list (map f (filter (\<lambda>e. JournalEntry.account e = a) (e # es)))) ks)
      = sum_list (map (\<lambda>a. (if JournalEntry.account e = a then f e else 0)
                          + sum_list (map f (filter (\<lambda>e. JournalEntry.account e = a) es))) ks)"
    by (intro arg_cong [where f = sum_list] map_cong refl) simp
  also have "\<dots> = sum_list (map (\<lambda>a. if JournalEntry.account e = a then f e else 0) ks)
      + sum_list (map (\<lambda>a. sum_list (map f (filter (\<lambda>e. JournalEntry.account e = a) es))) ks)"
    by (simp add: sum_list_addf)
  also have "\<dots> = f e + sum_list (map f es)"
    using Cons by (simp add: sum_list_delta)
  finally show ?case by simp
qed

lemma nets_whole:
  assumes "whole_rows db" and "sum_list (map weight db) < 2 ^ 53"
  shows "nets db = map (\<lambda>a. (a, Fin (of_int (inet a db))))
                      (distinct_accounts [] (map JournalEntry.account db))"
  by (simp add: nets_def inet_def net_of_whole [OF assms])

lemma inet_sum:
  "sum_list (map (\<lambda>a. inet a db) (distinct_accounts [] (map JournalEntry.account db)))
     = sum_list (map irow db)"
  unfolding inet_def
  by (rule sum_list_by_account) (simp_all add: distinct_accounts_distinct distinct_accounts_set)

lemma inet_abs_sum:
  "sum_list (map (\<lambda>a. \<bar>inet a db\<bar>) (distinct_accounts [] (map JournalEntry.account db)))
     \<le> sum_list (map weight db)"
proof -
  let ?ks = "distinct_accounts [] (map JournalEntry.account db)"
  have "sum_list (map (\<lambda>a. \<bar>inet a db\<bar>) ?ks) \<le>
        sum_list (map (\<lambda>a. sum_list (map weight (filter (\<lambda>e. JournalEntry.account e = a) db))) ?ks)"
    by (rule sum_list_mono) (simp add: inet_def abs_sum_irow)
  also have "\<dots> = sum_list (map weight db)"
    by (rule sum_list_by_account) (simp_all add: distinct_accounts_distinct distinct_accounts_set)
  finally show ?thesis .
qed

lemma emitted_whole: "emitted (a, Fin (of_int n)) = (n \<noteq> 0)"
  using abs_of_int_ge1 [of n] by (cases "n = 0") (auto simp: emitted_def eps_value)

lemma emitted_zero: "\<not> emitted (a, Fin 0)"
  using emitted_whole [of a 0] by simp

lemma dr_of_whole: "dr_of (Fin (of_int n)) = Fin (of_int (max n 0))"
  by (simp add: dr_of_def fgt_def max_def)

lemma cr_of_whole: "cr_of (Fin (of_int n)) = Fin (of_int (max (- n) 0))"
  by (simp add: cr_of_def max_def)

text \<open>
  The totals of the second loop on whole-number nets: the debit total is the sum of the
  positive nets, the credit total the sum of the negative nets with the sign dropped.
\<close>

lemma totals_whole:
  "\<bar>d\<bar> + sum_list (map (\<lambda>a. \<bar>N a\<bar>) ks) < 2 ^ 53 \<Longrightarrow>
     foldl fadd (Fin (of_int d))
       (map (\<lambda>p. dr_of (snd p)) (filter emitted (map (\<lambda>a. (a, Fin (of_int (N a)))) ks))) =
       Fin (of_int (d + sum_list (map (\<lambda>a. max (N a) 0) ks))) \<and>
     foldl fadd (Fin (of_int d))
       (map (\<lambda>p. cr_of (snd p)) (filter emitted (map (\<lambda>a. (a, Fin (of_int (N a)))) ks))) =
       Fin (of_int (d + sum_list (map (\<lambda>a. max (- N a) 0) ks)))"
proof (induction ks arbitrary: d)
  case Nil
  show ?case by simp
next
  case (Cons k ks)
  have nonneg: "0 \<le> sum_list (map (\<lambda>a. \<bar>N a\<bar>) ks)"
    by (rule sum_list_nonneg) auto
  show ?case
  proof (cases "N k = 0")
    case True
    with Cons.prems have "\<bar>d\<bar> + sum_list (map (\<lambda>a. \<bar>N a\<bar>) ks) < 2 ^ 53"
      by simp
    from Cons.IH [OF this] True show ?thesis
      by (simp add: emitted_zero)
  next
    case False
    from Cons.prems nonneg have b1: "\<bar>d + max (N k) 0\<bar> < 2 ^ 53"
      and b2: "\<bar>d + max (- N k) 0\<bar> < 2 ^ 53"
      by (auto simp: max_def)
    from Cons.prems have r1: "\<bar>d + max (N k) 0\<bar> + sum_list (map (\<lambda>a. \<bar>N a\<bar>) ks) < 2 ^ 53"
      and r2: "\<bar>d + max (- N k) 0\<bar> + sum_list (map (\<lambda>a. \<bar>N a\<bar>) ks) < 2 ^ 53"
      by (auto simp: max_def)
    have s1: "fadd (Fin (of_int d)) (dr_of (Fin (of_int (N k)))) =
                Fin (of_int (d + max (N k) 0))"
      unfolding dr_of_whole by (rule fadd_whole [OF b1])
    have s2: "fadd (Fin (of_int d)) (cr_of (Fin (of_int (N k)))) =
                Fin (of_int (d + max (- N k) 0))"
      unfolding cr_of_whole by (rule fadd_whole [OF b2])
    from False have em: "emitted (k, Fin (of_int (N k)))"
      by (simp add: emitted_whole)
    from Cons.IH [OF r1] Cons.IH [OF r2] show ?thesis
      by (simp add: em s1 s2 add.assoc)
  qed
qed

lemma max_split_sum:
  "sum_list (map (\<lambda>a. max (N a) 0) ks) - sum_list (map (\<lambda>a. max (- N a) 0) ks)
     = sum_list (map N (ks :: string list) :: int list)"
  by (induction ks) (auto simp: max_def)

text \<open>
  C1, as the code has it. After any sequence of valid posts of whole-number amounts,
  starting from the empty table, with twice the sum of the amounts below \<open>2\<^sup>5\<^sup>3\<close>, the books
  are balanced and the two totals are equal. Every sum that the computation forms is then
  exact, and a net other than 0 is at least 1, so that no account with a net is left out.
\<close>

theorem trial_balance_balanced:
  assumes "whole_posts float_of ps"
    and "2 * posts_total float_of ps < 2 ^ 53"
  shows "is_balanced (calculate_trial_balance fmt (post_all float_of ps []) st) \<and>
         total_dr (calculate_trial_balance fmt (post_all float_of ps []) st) =
         total_cr (calculate_trial_balance fmt (post_all float_of ps []) st)"
proof -
  let ?db = "post_all float_of ps []"
  let ?ks = "distinct_accounts [] (map JournalEntry.account ?db)"
  from post_all_whole [OF assms(1), of "[]"] assms(2)
  have w: "whole_rows ?db" and zero: "sum_list (map irow ?db) = 0"
    and b: "sum_list (map weight ?db) < 2 ^ 53"
    by (simp_all add: whole_rows_def)
  note n = nets_whole [OF w b]
  from inet_abs_sum [of ?db] b
  have "\<bar>0::int\<bar> + sum_list (map (\<lambda>a. \<bar>inet a ?db\<bar>) ?ks) < 2 ^ 53"
    by simp
  from totals_whole [OF this]
  have dr: "total_dr (calculate_trial_balance fmt ?db st) =
              Fin (of_int (sum_list (map (\<lambda>a. max (inet a ?db) 0) ?ks)))"
    and cr: "total_cr (calculate_trial_balance fmt ?db st) =
              Fin (of_int (sum_list (map (\<lambda>a. max (- inet a ?db) 0) ?ks)))"
    by (simp_all add: calculate_trial_balance_eq py_sum_def n)
  from max_split_sum [of "\<lambda>a. inet a ?db" ?ks] inet_sum [of ?db] zero
  have eq: "sum_list (map (\<lambda>a. max (inet a ?db) 0) ?ks) =
            sum_list (map (\<lambda>a. max (- inet a ?db) 0) ?ks)"
    by simp
  from dr cr eq show ?thesis
    by (simp add: is_balanced_def fsub_def round_double_def eps_value)
qed

lemma nets_posts_loan:
  "nets (post_all py_float posts_loan []) =
     [(''Cash'', Fin 70), (''Bank Loan'', Fin (- 100)), (''Rent Expense'', Fin 30)]"
  by (simp add: posts_loan_def add_transaction_def form_sel Let_def commit_ok
        py_float_50 py_float_30 nets_def net_of_def py_sum_def fsub_def round_double_simps)

lemma nets_posts_small:
  "nets (post_all py_float posts_small []) =
     [(''Cash'', Fin (3458764513820541 / 288230376151711744)),
      (''Sales Revenue'', Fin (- (3458764513820541 / 576460752303423488))),
      (''Bank Loan'', Fin (- (3458764513820541 / 576460752303423488)))]"
  by (simp add: posts_small_def add_transaction_def form_sel Let_def commit_ok py_float_0006
        nets_def net_of_def py_sum_def fsub_def round_double_simps)

theorem trial_balance_balanced_witness:
  "whole_posts py_float posts_loan \<and>
   2 * posts_total py_float posts_loan < 2 ^ 53 \<and>
   is_balanced (calculate_trial_balance format_2f (post_all py_float posts_loan []) tb0) \<and>
   total_dr (calculate_trial_balance format_2f (post_all py_float posts_loan []) tb0) = Fin 100 \<and>
   total_cr (calculate_trial_balance format_2f (post_all py_float posts_loan []) tb0) = Fin 100"
proof -
  have v: "whole_posts py_float posts_loan"
    by (simp add: whole_posts_def posts_loan_def form_sel py_float_50 py_float_30)
  have s: "2 * posts_total py_float posts_loan < 2 ^ 53"
    by (simp add: posts_total_def posts_loan_def form_sel py_float_50 py_float_30)
  have d: "total_dr (calculate_trial_balance format_2f (post_all py_float posts_loan []) tb0)
             = Fin 100"
    unfolding calculate_trial_balance_eq nets_posts_loan
    by (simp add: emitted_def dr_of_def fgt_def py_sum_def eps_value round_double_simps)
  from trial_balance_balanced [OF v s, of format_2f tb0] v s d show ?thesis
    by simp
qed

text \<open>
  C1, as the claim has it, fails. After the two valid posts of 0.006 the net of Cash is
  0.012 and gets a row, the nets of the two credited accounts are -0.006 each and get
  none. The debit total is 0.012, the credit total is 0, and the books are reported as
  not balanced.
\<close>

theorem trial_balance_unbalanced_counterexample:
  "valid_posts py_float posts_small \<and>
   total_dr (calculate_trial_balance format_2f (post_all py_float posts_small []) tb0)
     = Fin (3458764513820541 / 288230376151711744) \<and>
   total_cr (calculate_trial_balance format_2f (post_all py_float posts_small []) tb0)
     = Fin 0 \<and>
   \<not> is_balanced (calculate_trial_balance format_2f (post_all py_float posts_small []) tb0)"
proof -
  have v: "valid_posts py_float posts_small"
    by (simp add: valid_posts_def posts_small_def form_sel py_float_0006 fgt_def)
  have d: "total_dr (calculate_trial_balance format_2f (post_all py_float posts_small []) tb0)
             = Fin (3458764513820541 / 288230376151711744)"
    unfolding calculate_trial_balance_eq nets_posts_small
    by (simp add: emitted_def dr_of_def fgt_def py_sum_def eps_value round_double_simps)
  have c: "total_cr (calculate_trial_balance format_2f (post_all py_float posts_small []) tb0)
             = Fin 0"
    unfolding calculate_trial_balance_eq nets_posts_small
    by (simp add: emitted_def cr_of_def py_sum_def eps_value round_double_zero)
  from v d c show ?thesis
    by (simp add: is_balanced_def fsub_def eps_value round_double_simps)
qed

section \<open>The balance of a ledger\<close>

lemma sum_list_map_mset:
  fixes f :: "'a \<Rightarrow> int"
  shows "mset xs = mset ys \<Longrightarrow> sum_list (map f xs) = sum_list (map f ys)"
proof -
  assume "mset xs = mset ys"
  then have "mset (map f xs) = mset (map f ys)"
    by simp
  then have "sum_mset (mset (map f xs)) = sum_mset (mset (map f ys))"
    by (rule arg_cong)
  then show ?thesis
    by (simp only: sum_mset_sum_list)
qed

lemma whole_list: "list_all is_whole xs \<Longrightarrow> xs = map (\<lambda>n. Fin (of_int n)) (map iv xs)"
  by (induction xs) (auto dest: is_whole_iv)

lemma py_sum_whole_list:
  "list_all is_whole xs \<Longrightarrow> sum_list (map (\<lambda>x. \<bar>iv x\<bar>) xs) < 2 ^ 53 \<Longrightarrow>
     py_sum xs = Fin (of_int (sum_list (map iv xs)))"
proof -
  assume w: "list_all is_whole xs" and b: "sum_list (map (\<lambda>x. \<bar>iv x\<bar>) xs) < 2 ^ 53"
  from b have "sum_list (map abs (map iv xs)) < 2 ^ 53"
    by (simp add: comp_def)
  from py_sum_whole [OF this] whole_list [OF w] show ?thesis
    by simp
qed

lemma sum_abs_debit_le: "sum_list (map (\<lambda>e. \<bar>iv (debit e)\<bar>) es) \<le> sum_list (map weight es)"
  by (rule sum_list_mono) (simp add: weight_def)

lemma sum_abs_credit_le: "sum_list (map (\<lambda>e. \<bar>iv (credit e)\<bar>) es) \<le> sum_list (map weight es)"
  by (rule sum_list_mono) (simp add: weight_def)

text \<open>The balance of a ledger of whole-number rows: both sums and their difference are exact.\<close>

lemma account_balance_whole:
  assumes "whole_rows db" and "sum_list (map weight db) < 2 ^ 53"
  shows "account_balance (set_account a db st) = Fin (of_int (inet a db))"
proof -
  let ?es = "filter (\<lambda>e. JournalEntry.account e = a) db"
  let ?L = "order_by_date_desc ?es"
  have m: "mset ?L = mset ?es"
    by (rule mset_order_by_date_desc)
  then have "set ?L = set ?es"
    by (rule mset_eq_setD)
  with assms(1) have w: "list_all (\<lambda>e. is_whole (debit e) \<and> is_whole (credit e)) ?L"
    by (simp add: whole_rows_def list_all_iff)
  have "sum_list (map weight ?L) = sum_list (map weight ?es)"
    by (rule sum_list_map_mset [OF m])
  with sum_weight_filter [of "\<lambda>e. JournalEntry.account e = a" db] assms(2)
  have b: "sum_list (map weight ?L) < 2 ^ 53"
    by simp
  from w have wd: "list_all is_whole (map debit ?L)" and wc: "list_all is_whole (map credit ?L)"
    by (simp_all add: list_all_iff)
  from b sum_abs_debit_le [of ?L]
  have "sum_list (map (\<lambda>x. \<bar>iv x\<bar>) (map debit ?L)) < 2 ^ 53"
    by (simp add: comp_def)
  from py_sum_whole_list [OF wd this]
  have d: "py_sum (map debit ?L) = Fin (of_int (sum_list (map (\<lambda>e. iv (debit e)) ?L)))"
    by (simp add: comp_def)
  from b sum_abs_credit_le [of ?L]
  have "sum_list (map (\<lambda>x. \<bar>iv x\<bar>) (map credit ?L)) < 2 ^ 53"
    by (simp add: comp_def)
  from py_sum_whole_list [OF wc this]
  have c: "py_sum (map credit ?L) = Fin (of_int (sum_list (map (\<lambda>e. iv (credit e)) ?L)))"
    by (simp add: comp_def)
  have "sum_list (map irow ?L) = (\<Sum>e\<leftarrow>?L. iv (debit e) - iv (credit e))"
    by (intro arg_cong [where f = sum_list] map_cong refl) (simp add: irow_def)
  also have "\<dots> = sum_list (map (\<lambda>e. iv (debit e)) ?L) - sum_list (map (\<lambda>e. iv (credit e)) ?L)"
    by (rule sum_list_subtractf)
  finally have diff:
    "sum_list (map (\<lambda>e. iv (debit e)) ?L) - sum_list (map (\<lambda>e. iv (credit e)) ?L)
       = sum_list (map irow ?L)"
    by simp
  have perm: "sum_list (map irow ?L) = inet a db"
    unfolding inet_def by (rule sum_list_map_mset [OF m])
  from abs_sum_irow [of ?L] b have "\<bar>sum_list (map irow ?L)\<bar> < 2 ^ 53"
    by simp
  with diff have small:
    "\<bar>sum_list (map (\<lambda>e. iv (debit e)) ?L) - sum_list (map (\<lambda>e. iv (credit e)) ?L)\<bar> < 2 ^ 53"
    by simp
  have "fsub (py_sum (map debit ?L)) (py_sum (map credit ?L)) =
          Fin (of_int (sum_list (map (\<lambda>e. iv (debit e)) ?L)
                       - sum_list (map (\<lambda>e. iv (credit e)) ?L)))"
    unfolding d c by (rule fsub_whole [OF small])
  then have "fsub (py_sum (map debit ?L)) (py_sum (map credit ?L)) = Fin (of_int (inet a db))"
    by (simp only: diff perm)
  then show ?thesis
    by (simp add: account_balance_def set_account_def get_ledger_entries_def Let_def)
qed

lemma iv_fneg: "is_whole x \<Longrightarrow> is_whole (fneg x) \<and> iv (fneg x) = - iv x"
proof -
  assume "is_whole x"
  then have "x = Fin (of_int (iv x))"
    by (rule is_whole_iv)
  then have "fneg x = Fin (of_int (- iv x))"
    by (metis fneg.simps(1) of_int_minus)
  then show ?thesis
    by (simp only: is_whole_of_int)
qed

text \<open>What the posts of whole-number amounts contribute to an account.\<close>

lemma signed_amounts_whole:
  "whole_posts float_of ps \<Longrightarrow>
     list_all is_whole (signed_amounts float_of a ps) \<and>
     sum_list (map (\<lambda>x. \<bar>iv x\<bar>) (signed_amounts float_of a ps)) \<le> 2 * posts_total float_of ps \<and>
     inet a (post_all float_of ps db) =
       inet a db + sum_list (map iv (signed_amounts float_of a ps))"
proof (induction ps arbitrary: db)
  case Nil
  show ?case by (simp add: signed_amounts_def posts_total_def)
next
  case (Cons p ps)
  obtain now st where p: "p = (now, st)"
    by (cases p)
  from Cons.prems p obtain x where x: "float_of (amount st) = Some x" "is_whole x" "0 < iv x"
    by (auto simp: whole_posts_def split: option.splits)
  from x(2,3) have acc: "\<not> (fle x (Fin 0) \<or> x = NaN)"
    by (cases x) auto
  let ?db = "fst (snd (add_transaction float_of now db st))"
  note step = whole_post_step [of float_of st x now db, OF x]
  note neg = iv_fneg [OF x(2)]
  have one: "signed_amount float_of a st =
               (if debit_account st = a then [x] else [])
               @ (if credit_account st = a then [fneg x] else [])"
    using acc by (simp add: signed_amount_def x(1))
  have split: "signed_amounts float_of a ((now, st) # ps) =
                 signed_amount float_of a st @ signed_amounts float_of a ps"
    by (simp add: signed_amounts_def)
  have total: "posts_total float_of ((now, st) # ps) = iv x + posts_total float_of ps"
    by (simp add: posts_total_def x(1))
  have i: "inet a ?db = inet a db + sum_list (map iv (signed_amount float_of a st))"
    using neg by (simp add: step inet_def irow_def one)
  from Cons.prems p have rest: "whole_posts float_of ps"
    by (simp add: whole_posts_def)
  note IH = Cons.IH [OF rest, of ?db]
  from IH x(2) neg have 1: "list_all is_whole (signed_amounts float_of a ((now, st) # ps))"
    by (simp add: split one)
  from IH x(3) neg have 2:
    "sum_list (map (\<lambda>x. \<bar>iv x\<bar>) (signed_amounts float_of a ((now, st) # ps)))
       \<le> 2 * posts_total float_of ((now, st) # ps)"
    by (simp add: split one total)
  from IH i have 3:
    "inet a (post_all float_of ((now, st) # ps) db) =
       inet a db + sum_list (map iv (signed_amounts float_of a ((now, st) # ps)))"
    by (simp add: split)
  from 1 2 3 show ?case
    unfolding p by blast
qed

text \<open>
  C5, as the code has it. After any sequence of valid posts of whole-number amounts to
  the empty table, with twice the sum of the amounts below \<open>2\<^sup>5\<^sup>3\<close>, the balance shown
  for an account, that is the sum of the debits minus the sum of the credits over the
  ledger entries of the account, is the sum over the posts of the amount where the
  account was debited and of the negated amount where it was credited. Every sum is then
  exact.
\<close>

theorem account_balance_signed_sum:
  assumes "whole_posts float_of ps"
    and "2 * posts_total float_of ps < 2 ^ 53"
  shows "account_balance (set_account a (post_all float_of ps []) st) =
           py_sum (signed_amounts float_of a ps)"
proof -
  let ?db = "post_all float_of ps []"
  from post_all_whole [OF assms(1), of "[]"] assms(2)
  have w: "whole_rows ?db" and b: "sum_list (map weight ?db) < 2 ^ 53"
    by (simp_all add: whole_rows_def)
  note s = signed_amounts_whole [OF assms(1), of a "[]"]
  from s assms(2) have "sum_list (map (\<lambda>x. \<bar>iv x\<bar>) (signed_amounts float_of a ps)) < 2 ^ 53"
    by simp
  with s have "py_sum (signed_amounts float_of a ps) =
                 Fin (of_int (sum_list (map iv (signed_amounts float_of a ps))))"
    by (simp add: py_sum_whole_list)
  moreover from s have "inet a ?db = sum_list (map iv (signed_amounts float_of a ps))"
    by (simp add: inet_def)
  ultimately show ?thesis
    by (simp add: account_balance_whole [OF w b])
qed

theorem account_balance_signed_sum_witness:
  "whole_posts py_float posts_loan \<and>
   2 * posts_total py_float posts_loan < 2 ^ 53 \<and>
   signed_amounts py_float ''Cash'' posts_loan = [Fin 50, Fin 50, Fin (- 30)] \<and>
   account_balance (set_account ''Cash'' (post_all py_float posts_loan []) ledger0) = Fin 70"
proof -
  have v: "whole_posts py_float posts_loan"
    by (simp add: whole_posts_def posts_loan_def form_sel py_float_50 py_float_30)
  have t: "2 * posts_total py_float posts_loan < 2 ^ 53"
    by (simp add: posts_total_def posts_loan_def form_sel py_float_50 py_float_30)
  have s: "signed_amounts py_float ''Cash'' posts_loan = [Fin 50, Fin 50, Fin (- 30)]"
    by (simp add: signed_amounts_def signed_amount_def posts_loan_def form_sel
          py_float_50 py_float_30)
  have "py_sum [Fin 50, Fin 50, Fin (- 30)] = Fin 70"
    by (simp add: py_sum_def round_double_simps)
  with account_balance_signed_sum [OF v t, of "''Cash''" ledger0] v t s show ?thesis
    by simp
qed

text \<open>
  C5, as the claim has it, fails. Cash is debited 1e16, credited 1e16 and debited 1. The
  debits of its ledger add up to 1e16, since 1e16 + 1 is no double and rounds to 1e16;
  the credits add up to 1e16; the balance shown is 0. The sum of the signed amounts,
  1e16 - 1e16 + 1, is 1.
\<close>

theorem account_balance_rounding_counterexample:
  "valid_posts py_float posts_big \<and>
   signed_amounts py_float ''Cash'' posts_big =
     [Fin 10000000000000000, Fin (- 10000000000000000), Fin 1] \<and>
   py_sum (signed_amounts py_float ''Cash'' posts_big) = Fin 1 \<and>
   account_balance (set_account ''Cash'' (post_all py_float posts_big []) ledger0) = Fin 0"
proof -
  have v: "valid_posts py_float posts_big"
    by (simp add: valid_posts_def posts_big_def form_sel py_float_1e16 py_float_1 fgt_def)
  have s: "signed_amounts py_float ''Cash'' posts_big =
     [Fin 10000000000000000, Fin (- 10000000000000000), Fin 1]"
    by (simp add: signed_amounts_def signed_amount_def posts_big_def form_sel
          py_float_1e16 py_float_1)
  have p: "py_sum [Fin 10000000000000000, Fin (- 10000000000000000), Fin 1] = Fin 1"
    by (simp add: py_sum_def round_double_simps)
  have db: "post_all py_float posts_big [] =
     [\<lparr>date = minute0, description = ''a'', account = ''Cash'', category = ''Debit'',
       debit = Fin 10000000000000000, credit = Fin 0\<rparr>,
      \<lparr>date = minute0, description = ''a'', account = ''Bank Loan'', category = ''Credit'',
       debit = Fin 0, credit = Fin 10000000000000000\<rparr>,
      \<lparr>date = minute0, description = ''b'', account = ''Bank Loan'', category = ''Debit'',
       debit = Fin 10000000000000000, credit = Fin 0\<rparr>,
      \<lparr>date = minute0, description = ''b'', account = ''Cash'', category = ''Credit'',
       debit = Fin 0, credit = Fin 10000000000000000\<rparr>,
      \<lparr>date = minute0, description = ''c'', account = ''Cash'', category = ''Debit'',
       debit = Fin 1, credit = Fin 0\<rparr>,
      \<lparr>date = minute0, description = ''c'', account = ''Bank Loan'', category = ''Credit'',
       debit = Fin 0, credit = Fin 1\<rparr>]"
    by (simp add: posts_big_def add_transaction_def form_sel Let_def commit_ok
          py_float_1e16 py_float_1)
  have b: "account_balance (set_account ''Cash'' (post_all py_float posts_big []) ledger0) = Fin 0"
    unfolding db
    by (simp add: account_balance_def set_account_def get_ledger_entries_def ledger0_def
          order_by_date_desc_def Let_def py_sum_def fsub_def round_double_simps)
  from v s p b show ?thesis
    by simp
qed

end
